theory Spec2Isabelle
  imports Main "HOL-Library.AList" "HOL-Library.Char_ord" "HOL-Library.List_Lexorder"
begin

section \<open>Paths: package path/filepath with the Unix separator\<close>

text \<open>
  The driver builds every path with \<open>filepath.Join\<close> and \<open>filepath.Clean\<close> and by
  appending the suffixes \<open>.json\<close> and \<open>.tmp\<close> to the resulting strings. Paths are therefore
  kept as strings. \<open>split_path\<close> cuts a path at every separator (like \<open>strings.Split\<close>),
  \<open>join_with\<close> is \<open>strings.Join\<close> with the separator.
\<close>

fun split_path :: "string \<Rightarrow> string list" where
  "split_path [] = [[]]"
| "split_path (c # cs) =
    (if c = CHR ''/'' then [] # split_path cs
     else (case split_path cs of [] \<Rightarrow> [[c]] | w # ws \<Rightarrow> (c # w) # ws))"

fun join_with :: "string list \<Rightarrow> string" where
  "join_with [] = []"
| "join_with [x] = x"
| "join_with (x # y # ys) = x @ CHR ''/'' # join_with (y # ys)"

text \<open>
  \<open>filepath.Clean\<close>: empty elements and \<open>.\<close> elements are dropped, an inner \<open>..\<close> removes
  the element before it, a \<open>..\<close> that begins a rooted path is dropped, a \<open>..\<close> that begins
  a relative path is kept. The empty result is \<open>.\<close>. \<open>out\<close> is the output written so far.
\<close>

fun clean_elems :: "bool \<Rightarrow> string list \<Rightarrow> string list \<Rightarrow> string list" where
  "clean_elems rooted out [] = out"
| "clean_elems rooted out (e # es) =
    (if e = [] \<or> e = ''.'' then clean_elems rooted out es
     else if e = ''..'' then
       (if out \<noteq> [] \<and> last out \<noteq> ''..'' then clean_elems rooted (butlast out) es
        else if rooted then clean_elems rooted out es
        else clean_elems rooted (out @ [''..'']) es)
     else clean_elems rooted (out @ [e]) es)"

definition is_rooted :: "string \<Rightarrow> bool" where
  "is_rooted path = (case path of [] \<Rightarrow> False | c # cs \<Rightarrow> c = CHR ''/'')"

definition filepath_Clean :: "string \<Rightarrow> string" where
  "filepath_Clean path =
    (if path = [] then ''.''
     else let out = clean_elems (is_rooted path) [] (split_path path)
          in if is_rooted path then CHR ''/'' # join_with out
             else if out = [] then ''.'' else join_with out)"

text \<open>
  \<open>filepath.Join\<close> on Unix: leading empty elements are skipped, the rest is joined with
  the separator and cleaned; with no non-empty element the result is the empty string.
\<close>

definition filepath_Join :: "string list \<Rightarrow> string" where
  "filepath_Join elem =
    (case dropWhile (\<lambda>e. e = []) elem of
       [] \<Rightarrow> []
     | e # es \<Rightarrow> filepath_Clean (join_with (e # es)))"

section \<open>The filesystem\<close>

text \<open>
  The store keeps its data in the filesystem, so the filesystem is the state of the model:
  a tree of regular files (with their content) and directories (with their entries, by
  name), and the working directory of the process, against which relative paths are
  resolved. Symbolic links, permissions, special files and a full disk are outside the
  model: an operation fails here exactly when the shape of the tree makes it fail.
\<close>

datatype node = File string | Dir "(string \<times> node) list"

record filesys =
  root :: node
  cwd :: "string list"

datatype errno = ENOENT | ENOTDIR | EISDIR | EEXIST | EINVAL | EBUSY | ENOTEMPTY

datatype error =
    Errorf string
  | PathError string string errno
  | LinkError string string string errno
  | JSONError string

datatype FileInfo = FileInfo (Name: string) (IsDir: bool)

definition IsRegular :: "FileInfo \<Rightarrow> bool" where
  "IsRegular fi = (\<not> IsDir fi)"

fun is_dir :: "node \<Rightarrow> bool" where
  "is_dir (File b) = False"
| "is_dir (Dir es) = True"

text \<open>\<open>os.IsNotExist\<close>: the error wraps \<open>ENOENT\<close>.\<close>

fun os_IsNotExist :: "error \<Rightarrow> bool" where
  "os_IsNotExist (PathError op p e) = (e = ENOENT)"
| "os_IsNotExist (LinkError op p q e) = (e = ENOENT)"
| "os_IsNotExist (Errorf m) = False"
| "os_IsNotExist (JSONError m) = False"

text \<open>
  Path resolution, as the kernel does it on a tree without symbolic links: from the root
  for a rooted path, from the working directory otherwise; \<open>..\<close> steps to the parent and
  stays at the root. The steps are taken on the names alone. For the paths the driver
  passes, which are cleaned paths with a suffix appended to the last element at most, a
  \<open>..\<close> stands only at the front of a relative path, where it steps up from the working
  directory, so this is where the kernel arrives.
\<close>

fun walk :: "string list \<Rightarrow> string list \<Rightarrow> string list" where
  "walk at [] = at"
| "walk at (e # es) =
    (if e = [] \<or> e = ''.'' then walk at es
     else if e = ''..'' then walk (butlast at) es
     else walk (at @ [e]) es)"

definition resolve :: "filesys \<Rightarrow> string \<Rightarrow> string list" where
  "resolve fs path = walk (if is_rooted path then [] else cwd fs) (split_path path)"

fun lookup :: "node \<Rightarrow> string list \<Rightarrow> errno + node" where
  "lookup n [] = Inr n"
| "lookup (File b) (x # xs) = Inl ENOTDIR"
| "lookup (Dir es) (x # xs) =
    (case map_of es x of None \<Rightarrow> Inl ENOENT | Some c \<Rightarrow> lookup c xs)"

fun mkdir_all :: "node \<Rightarrow> string list \<Rightarrow> errno + node" where
  "mkdir_all (File b) p = Inl ENOTDIR"
| "mkdir_all (Dir es) [] = Inr (Dir es)"
| "mkdir_all (Dir es) (x # xs) =
    (case mkdir_all (case map_of es x of None \<Rightarrow> Dir [] | Some c \<Rightarrow> c) xs of
       Inl e \<Rightarrow> Inl e
     | Inr c \<Rightarrow> Inr (Dir (AList.update x c es)))"

text \<open>\<open>place t p n\<close> puts the node \<open>n\<close> at \<open>p\<close>, in a parent directory that exists.\<close>

fun place :: "node \<Rightarrow> string list \<Rightarrow> node \<Rightarrow> errno + node" where
  "place t [] n = Inl EBUSY"
| "place (File b) (x # xs) n = Inl ENOTDIR"
| "place (Dir es) [x] n = Inr (Dir (AList.update x n es))"
| "place (Dir es) (x # y # ys) n =
    (case map_of es x of
       None \<Rightarrow> Inl ENOENT
     | Some c \<Rightarrow> (case place c (y # ys) n of
                   Inl e \<Rightarrow> Inl e
                 | Inr c' \<Rightarrow> Inr (Dir (AList.update x c' es))))"

text \<open>\<open>remove_all t p\<close> takes the entry at \<open>p\<close> out of the tree, with everything under it.\<close>

fun remove_all :: "node \<Rightarrow> string list \<Rightarrow> node" where
  "remove_all t [] = t"
| "remove_all (File b) (x # xs) = File b"
| "remove_all (Dir es) [x] = Dir (AList.delete x es)"
| "remove_all (Dir es) (x # y # ys) =
    (case map_of es x of
       None \<Rightarrow> Dir es
     | Some c \<Rightarrow> Dir (AList.update x (remove_all c (y # ys)) es))"

definition os_Stat :: "filesys \<Rightarrow> string \<Rightarrow> error + FileInfo" where
  "os_Stat fs path =
    (if path = [] then Inl (PathError ''stat'' path ENOENT)
     else case lookup (root fs) (resolve fs path) of
            Inl e \<Rightarrow> Inl (PathError ''stat'' path e)
          | Inr n \<Rightarrow> Inr (FileInfo (last (split_path path)) (is_dir n)))"

definition os_MkdirAll :: "filesys \<Rightarrow> string \<Rightarrow> filesys \<times> error option" where
  "os_MkdirAll fs path =
    (if path = [] then (fs, Some (PathError ''mkdir'' path ENOENT))
     else case mkdir_all (root fs) (resolve fs path) of
            Inl e \<Rightarrow> (fs, Some (PathError ''mkdir'' path e))
          | Inr t \<Rightarrow> (fs\<lparr>root := t\<rparr>, None))"

text \<open>
  \<open>ioutil.WriteFile\<close> opens with \<open>O_WRONLY|O_CREATE|O_TRUNC\<close>: the file is created in an
  existing directory or its content is replaced; a directory cannot be opened for writing.
\<close>

definition ioutil_WriteFile :: "filesys \<Rightarrow> string \<Rightarrow> string \<Rightarrow> filesys \<times> error option" where
  "ioutil_WriteFile fs path data =
    (if path = [] then (fs, Some (PathError ''open'' path ENOENT))
     else case lookup (root fs) (resolve fs path) of
            Inr (Dir es) \<Rightarrow> (fs, Some (PathError ''open'' path EISDIR))
          | Inl ENOTDIR \<Rightarrow> (fs, Some (PathError ''open'' path ENOTDIR))
          | _ \<Rightarrow> (case place (root fs) (resolve fs path) (File data) of
                   Inl e \<Rightarrow> (fs, Some (PathError ''open'' path e))
                 | Inr t \<Rightarrow> (fs\<lparr>root := t\<rparr>, None)))"

definition ioutil_ReadFile :: "filesys \<Rightarrow> string \<Rightarrow> error + string" where
  "ioutil_ReadFile fs path =
    (if path = [] then Inl (PathError ''open'' path ENOENT)
     else case lookup (root fs) (resolve fs path) of
            Inl e \<Rightarrow> Inl (PathError ''open'' path e)
          | Inr (File b) \<Rightarrow> Inr b
          | Inr (Dir es) \<Rightarrow> Inl (PathError ''read'' path EISDIR))"

text \<open>\<open>ioutil.ReadDir\<close> returns the entries of a directory sorted by file name.\<close>

definition ioutil_ReadDir :: "filesys \<Rightarrow> string \<Rightarrow> error + FileInfo list" where
  "ioutil_ReadDir fs path =
    (if path = [] then Inl (PathError ''open'' path ENOENT)
     else case lookup (root fs) (resolve fs path) of
            Inl e \<Rightarrow> Inl (PathError ''open'' path e)
          | Inr (File b) \<Rightarrow> Inl (PathError ''readdirent'' path ENOTDIR)
          | Inr (Dir es) \<Rightarrow> Inr (map (\<lambda>(name, n). FileInfo name (is_dir n)) (sort_key fst es)))"

text \<open>
  \<open>os.Rename\<close>: Go refuses a new name that is a directory (\<open>EEXIST\<close>); otherwise the
  node moves from the old name to the new one in one step, replacing a file that is there.
\<close>

definition os_Rename :: "filesys \<Rightarrow> string \<Rightarrow> string \<Rightarrow> filesys \<times> error option" where
  "os_Rename fs oldname newname =
    (let old = resolve fs oldname; new = resolve fs newname
     in if oldname = [] \<or> newname = [] then (fs, Some (LinkError ''rename'' oldname newname ENOENT))
        else case lookup (root fs) old of
               Inl e \<Rightarrow> (fs, Some (LinkError ''rename'' oldname newname e))
             | Inr n \<Rightarrow>
                (case lookup (root fs) new of
                   Inr (Dir es) \<Rightarrow> (fs, Some (LinkError ''rename'' oldname newname EEXIST))
                 | Inl ENOTDIR \<Rightarrow> (fs, Some (LinkError ''rename'' oldname newname ENOTDIR))
                 | r \<Rightarrow>
                    if old = new then (fs, None)
                    else if is_dir n \<and> r \<noteq> Inl ENOENT
                      then (fs, Some (LinkError ''rename'' oldname newname ENOTDIR))
                    else if is_dir n \<and> take (length old) new = old
                      then (fs, Some (LinkError ''rename'' oldname newname EINVAL))
                    else (case place (remove_all (root fs) old) new n of
                            Inl e \<Rightarrow> (fs, Some (LinkError ''rename'' oldname newname e))
                          | Inr t \<Rightarrow> (fs\<lparr>root := t\<rparr>, None))))"

text \<open>
  \<open>empty_at t p\<close> removes every entry of the directory at \<open>p\<close> and keeps the
  directory; \<open>last_element\<close> is the last element of a path, trailing separators aside.
\<close>

fun empty_at :: "node \<Rightarrow> string list \<Rightarrow> node" where
  "empty_at (File b) p = File b"
| "empty_at (Dir es) [] = Dir []"
| "empty_at (Dir es) (x # xs) =
    (case map_of es x of
       None \<Rightarrow> Dir es
     | Some c \<Rightarrow> Dir (AList.update x (empty_at c xs) es))"

definition last_element :: "string \<Rightarrow> string" where
  "last_element path =
    (let es = filter (\<lambda>e. e \<noteq> []) (split_path path) in if es = [] then [] else last es)"

text \<open>
  \<open>os.RemoveAll\<close>: the empty path and a path that does not exist are no error; a path
  whose last element is \<open>.\<close> is refused with \<open>EINVAL\<close> before anything is removed. A
  directory named by a path whose last element is \<open>..\<close> is emptied, but the final
  \<open>rmdir\<close> of such a path fails with \<open>ENOTEMPTY\<close>: the directory stays and the error
  is returned. Likewise the root of the filesystem is emptied but cannot be removed itself
  (\<open>EBUSY\<close>). Any other path is removed with everything under it. Which system call and
  which path the error of a failed removal records differs between versions of Go; here
  it is \<open>unlinkat\<close> and the path as given, and the statements below speak of the error
  number only. The refusal is the first
  check of \<open>removeAll\<close> in package \<open>os\<close> after the one for the empty path:
  \<^verbatim>\<open>if endsWithDot(path) { return &PathError{Op: "RemoveAll", Path: path, Err: syscall.EINVAL} }\<close>,
  where \<open>endsWithDot\<close> holds of the path \<open>.\<close> and of a path that ends in a separator
  followed by a dot.
\<close>

definition endsWithDot :: "string \<Rightarrow> bool" where
  "endsWithDot path =
    (path = ''.'' \<or>
     (length path \<ge> 2 \<and> last path = CHR ''.'' \<and> last (butlast path) = CHR ''/''))"

definition os_RemoveAll :: "filesys \<Rightarrow> string \<Rightarrow> filesys \<times> error option" where
  "os_RemoveAll fs path =
    (if path = [] then (fs, None)
     else if endsWithDot path then (fs, Some (PathError ''RemoveAll'' path EINVAL))
     else case lookup (root fs) (resolve fs path) of
            Inl ENOENT \<Rightarrow> (fs, None)
          | Inl e \<Rightarrow> (fs, Some (PathError ''unlinkat'' path e))
          | Inr n \<Rightarrow>
              if last_element path = ''..''
              then (fs\<lparr>root := empty_at (root fs) (resolve fs path)\<rparr>,
                    Some (PathError ''unlinkat'' path ENOTEMPTY))
              else if resolve fs path = []
              then (fs\<lparr>root := empty_at (root fs) []\<rparr>,
                    Some (PathError ''unlinkat'' path EBUSY))
              else (fs\<lparr>root := remove_all (root fs) (resolve fs path)\<rparr>, None))"

section \<open>The driver\<close>

text \<open>
  The \<open>Driver\<close> struct. \<open>mutexes\<close> is the registry of collection locks: it maps a
  collection name to a pointer to its \<open>sync.Mutex\<close>. Pointers are addresses, and
  \<open>allocs\<close> counts the lock objects allocated so far, so that \<open>&sync.Mutex{}\<close> yields
  the address \<open>allocs\<close>, which no earlier object has. The logger only prints and is left
  out. The model runs one call at a time: every \<open>Lock\<close> is followed by its deferred
  \<open>Unlock\<close> before the call returns, so no lock is held between calls and the state of
  the locks is not part of the state.
\<close>

record Driver =
  mutexes :: "string \<rightharpoonup> nat"
  dir :: string
  allocs :: nat

text \<open>
  \<open>encoding/json\<close> is a parameter of the operations that use it: \<open>marshal\<close> stands for
  \<open>json.MarshalIndent(v, "", "\t")\<close> and \<open>unmarshal\<close> for \<open>json.Unmarshal\<close> into the
  caller's destination.
\<close>

type_synonym 'v marshaller = "'v \<Rightarrow> error + string"
type_synonym 'v unmarshaller = "string \<Rightarrow> error + 'v"

definition getOrCreateMutex :: "Driver \<Rightarrow> string \<Rightarrow> nat \<times> Driver" where
  "getOrCreateMutex d collection =
    (case mutexes d collection of
       Some m \<Rightarrow> (m, d)
     | None \<Rightarrow> (allocs d,
                d\<lparr>mutexes := (mutexes d)(collection \<mapsto> allocs d), allocs := Suc (allocs d)\<rparr>))"

definition stat :: "filesys \<Rightarrow> string \<Rightarrow> error + FileInfo" where
  "stat fs path =
    (case os_Stat fs path of
       Inl err \<Rightarrow> if os_IsNotExist err then os_Stat fs (path @ ''.json'') else Inl err
     | Inr fi \<Rightarrow> Inr fi)"

definition New :: "filesys \<Rightarrow> string \<Rightarrow> Driver \<times> filesys \<times> error option" where
  "New fs dir0 =
    (let dir' = filepath_Clean dir0;
         driver = \<lparr>mutexes = Map.empty, dir = dir', allocs = 0\<rparr>
     in case os_Stat fs dir' of
          Inr fi \<Rightarrow> (driver, fs, None)
        | Inl err \<Rightarrow> (case os_MkdirAll fs dir' of (fs', err') \<Rightarrow> (driver, fs', err')))"

definition Write ::
  "'v marshaller \<Rightarrow> Driver \<Rightarrow> filesys \<Rightarrow> string \<Rightarrow> string \<Rightarrow> 'v \<Rightarrow> Driver \<times> filesys \<times> error option"
where
  "Write marshal d fs collection resource v =
    (if collection = [] then
       (d, fs, Some (Errorf ''Missing collection - no place to save record!''))
     else if resource = [] then
       (d, fs, Some (Errorf ''Missing resource - unable to save record (no name)!''))
     else
       (case getOrCreateMutex d collection of (mutex, d') \<Rightarrow>
         (let dir' = filepath_Join [dir d', collection];
              fnlPath = filepath_Join [dir', resource @ ''.json''];
              tmpPath = fnlPath @ ''.tmp''
          in (case os_MkdirAll fs dir' of
                (fs1, Some err) \<Rightarrow> (d', fs1, Some err)
              | (fs1, None) \<Rightarrow>
                 (case marshal v of
                    Inl err \<Rightarrow> (d', fs1, Some err)
                  | Inr b \<Rightarrow>
                     (case ioutil_WriteFile fs1 tmpPath (b @ [CHR 0x0A]) of
                        (fs2, Some err) \<Rightarrow> (d', fs2, Some err)
                      | (fs2, None) \<Rightarrow>
                         (case os_Rename fs2 tmpPath fnlPath of
                            (fs3, err) \<Rightarrow> (d', fs3, err))))))))"

definition Read ::
  "'v unmarshaller \<Rightarrow> Driver \<Rightarrow> filesys \<Rightarrow> string \<Rightarrow> string \<Rightarrow> error + 'v"
where
  "Read unmarshal d fs collection resource =
    (if collection = [] then Inl (Errorf ''Missing collection - unable to read!'')
     else if resource = [] then
       Inl (Errorf ''Missing resource - unable to read record (no name)!'')
     else
       let record_path = filepath_Join [dir d, collection, resource @ ''.json'']
       in case stat fs record_path of
            Inl err \<Rightarrow> Inl err
          | Inr fi \<Rightarrow>
             (case ioutil_ReadFile fs record_path of
                Inl err \<Rightarrow> Inl err
              | Inr b \<Rightarrow> unmarshal b))"

text \<open>The loop of \<open>ReadAll\<close> over the listed entries; it stops at the first failed read.\<close>

fun readAllLoop :: "filesys \<Rightarrow> string \<Rightarrow> FileInfo list \<Rightarrow> string list \<Rightarrow> error + string list" where
  "readAllLoop fs dir' [] records = Inr records"
| "readAllLoop fs dir' (file # files) records =
    (case ioutil_ReadFile fs (filepath_Join [dir', Name file]) of
       Inl err \<Rightarrow> Inl err
     | Inr b \<Rightarrow> readAllLoop fs dir' files (records @ [b]))"

definition ReadAll :: "Driver \<Rightarrow> filesys \<Rightarrow> string \<Rightarrow> error + string list" where
  "ReadAll d fs collection =
    (if collection = [] then Inl (Errorf ''Missing collection - unable to read'')
     else
       let dir' = filepath_Join [dir d, collection]
       in case stat fs dir' of
            Inl err \<Rightarrow> Inl err
          | Inr fi \<Rightarrow>
             (let files = (case ioutil_ReadDir fs dir' of Inl err \<Rightarrow> [] | Inr fis \<Rightarrow> fis)
              in readAllLoop fs dir' files []))"

definition Delete :: "Driver \<Rightarrow> filesys \<Rightarrow> string \<Rightarrow> string \<Rightarrow> Driver \<times> filesys \<times> error option" where
  "Delete d fs collection resource =
    (let path = filepath_Join [collection, resource]
     in (case getOrCreateMutex d collection of (mutex, d') \<Rightarrow>
          (let dir' = filepath_Join [dir d', path]
           in (case stat fs dir' of
                 Inl err \<Rightarrow>
                   (d', fs,
                    Some (Errorf (''unable to find file or directory named '' @ path @ [CHR 0x0A])))
               | Inr fi \<Rightarrow>
                   if IsDir fi then
                     (case os_RemoveAll fs dir' of (fs', err) \<Rightarrow> (d', fs', err))
                   else if IsRegular fi then
                     (case os_RemoveAll fs (dir' @ ''.json'') of (fs', err) \<Rightarrow> (d', fs', err))
                   else (d', fs, None)))))"

section \<open>Sequences of calls\<close>

text \<open>
  The lifetime of a store is a sequence of calls of its four operations, each running on
  the driver and the filesystem the call before left behind.
\<close>

datatype 'v call =
    CallWrite string string 'v
  | CallRead string string
  | CallReadAll string
  | CallDelete string string

fun run_call :: "'v marshaller \<Rightarrow> Driver \<times> filesys \<Rightarrow> 'v call \<Rightarrow> Driver \<times> filesys" where
  "run_call marshal (d, fs) (CallWrite c r v) =
     (case Write marshal d fs c r v of (d', fs', err) \<Rightarrow> (d', fs'))"
| "run_call marshal (d, fs) (CallRead c r) = (d, fs)"
| "run_call marshal (d, fs) (CallReadAll c) = (d, fs)"
| "run_call marshal (d, fs) (CallDelete c r) =
     (case Delete d fs c r of (d', fs', err) \<Rightarrow> (d', fs'))"

definition run_calls ::
  "'v marshaller \<Rightarrow> Driver \<times> filesys \<Rightarrow> 'v call list \<Rightarrow> Driver \<times> filesys" where
  "run_calls marshal s calls = foldl (run_call marshal) s calls"

section \<open>A small store for the examples\<close>

text \<open>
  The store at \<open>/db\<close> as \<open>New\<close> leaves it on an empty disk, and a codec for strings
  without a double quote: a value is written between double quotes, a value that
  contains one cannot be encoded.
\<close>

definition store_fs :: filesys where
  "store_fs = \<lparr>root = Dir [(''db'', Dir [])], cwd = []\<rparr>"

definition store_driver :: Driver where
  "store_driver = \<lparr>mutexes = Map.empty, dir = ''/db'', allocs = 0\<rparr>"

definition text_marshal :: "string marshaller" where
  "text_marshal v =
    (if CHR 0x22 \<in> set v then Inl (JSONError ''unsupported value'')
     else Inr (CHR 0x22 # v @ [CHR 0x22]))"

definition text_unmarshal :: "string unmarshaller" where
  "text_unmarshal b =
    (if length b \<ge> 3 \<and> hd b = CHR 0x22 \<and> last b = CHR 0x0A \<and> last (butlast b) = CHR 0x22
     then Inr (butlast (butlast (tl b)))
     else Inl (JSONError ''invalid character''))"

text \<open>
  \<open>encoding/json\<close> for a value of type \<open>json.Number\<close>, the type of \<open>Age\<close> and
  \<open>Pincode\<close> in the \<open>User\<close> and \<open>Address\<close> of \<open>main.go\<close>. A \<open>Number\<close> is a string.
  The encoder writes the empty \<open>Number\<close> as \<open>0\<close>, a valid number literal as it is,
  and refuses any other string. The decoder, for a destination that holds the empty
  \<open>Number\<close>, skips white space around the text, stores a number literal as it is and
  leaves the destination as it is on \<open>null\<close>. (Go also accepts a quoted number literal;
  the encoder never writes one for a \<open>Number\<close>, and here it is an error like any other
  text.)
\<close>

definition is_digit :: "char \<Rightarrow> bool" where
  "is_digit c = (CHR ''0'' \<le> c \<and> c \<le> CHR ''9'')"

definition skip_minus :: "string \<Rightarrow> string" where
  "skip_minus s = (case s of [] \<Rightarrow> [] | c # cs \<Rightarrow> if c = CHR ''-'' then cs else s)"

definition skip_fraction :: "string \<Rightarrow> string" where
  "skip_fraction s =
    (case s of
       a # b # r \<Rightarrow> if a = CHR ''.'' \<and> is_digit b then dropWhile is_digit r else s
     | _ \<Rightarrow> s)"

definition exponent_or_end :: "string \<Rightarrow> bool" where
  "exponent_or_end s =
    (case s of
       a # b # r \<Rightarrow>
         (if a = CHR ''e'' \<or> a = CHR ''E'' then
            (if b = CHR ''+'' \<or> b = CHR ''-''
             then r \<noteq> [] \<and> dropWhile is_digit r = []
             else dropWhile is_digit (b # r) = [])
          else False)
     | _ \<Rightarrow> s = [])"

definition isValidNumber :: "string \<Rightarrow> bool" where
  "isValidNumber s =
    (case skip_minus s of
       [] \<Rightarrow> False
     | c # cs \<Rightarrow>
         is_digit c \<and>
         exponent_or_end (skip_fraction (if c = CHR ''0'' then cs else dropWhile is_digit cs)))"

definition Number_marshal :: "string marshaller" where
  "Number_marshal n =
    (let numStr = (if n = [] then ''0'' else n)
     in if isValidNumber numStr then Inr numStr
        else Inl (JSONError ''json: invalid number literal''))"

definition is_space :: "char \<Rightarrow> bool" where
  "is_space c = (c = CHR '' '' \<or> c = CHR 0x09 \<or> c = CHR 0x0A \<or> c = CHR 0x0D)"

definition Number_unmarshal :: "string unmarshaller" where
  "Number_unmarshal b =
    (let t = rev (dropWhile is_space (rev (dropWhile is_space b)))
     in if isValidNumber t then Inr t
        else if t = ''null'' then Inr []
        else Inl (JSONError ''invalid character''))"

text \<open>
  The same store with two resources in the collection \<open>users\<close>; the store with a
  directory \<open>old\<close> between the two resources; a store in which \<open>users\<close> does not exist
  and \<open>users.json\<close> is a directory that holds a file; a store opened at \<open>./\<close> by a
  process whose working directory is \<open>/home\<close>; and a store opened at \<open>..\<close> by a
  process whose working directory is \<open>/home/app\<close>.
\<close>

definition users_fs :: filesys where
  "users_fs = \<lparr>root = Dir [(''db'', Dir [(''users'',
      Dir [(''paul.json'', File [CHR 0x22, CHR ''P'', CHR 0x22, CHR 0x0A]),
           (''john.json'', File [CHR 0x22, CHR ''J'', CHR 0x22, CHR 0x0A])])])], cwd = []\<rparr>"

definition nested_fs :: filesys where
  "nested_fs = \<lparr>root = Dir [(''db'', Dir [(''users'',
      Dir [(''paul.json'', File [CHR 0x22, CHR ''P'', CHR 0x22, CHR 0x0A]),
           (''old'', Dir []),
           (''john.json'', File [CHR 0x22, CHR ''J'', CHR 0x22, CHR 0x0A])])])], cwd = []\<rparr>"

definition suffixed_fs :: filesys where
  "suffixed_fs = \<lparr>root = Dir [(''db'', Dir [(''users.json'',
      Dir [(''k'', File [CHR 0x22, CHR ''K'', CHR 0x22, CHR 0x0A])])])], cwd = []\<rparr>"

definition parent_fs :: filesys where
  "parent_fs = \<lparr>root = Dir [(''home'', Dir [(''app'', Dir []), (''users'',
      Dir [(''john.json'', File [CHR 0x22, CHR ''J'', CHR 0x22, CHR 0x0A])])])],
    cwd = [''home'', ''app'']\<rparr>"

definition local_fs :: filesys where
  "local_fs = \<lparr>root = Dir [(''home'', Dir [(''users'',
      Dir [(''john.json'', File [CHR 0x22, CHR ''J'', CHR 0x22, CHR 0x0A])])])],
    cwd = [''home'']\<rparr>"

section \<open>What the output of Clean looks like\<close>

text \<open>
  No element of the output of \<open>clean_elems\<close> is empty, is \<open>.\<close> or contains the
  separator, and the output of a rooted path has no \<open>..\<close>.
\<close>

definition clean_inv :: "bool \<Rightarrow> string list \<Rightarrow> bool" where
  "clean_inv rooted out =
     (\<forall>e\<in>set out. e \<noteq> [] \<and> e \<noteq> ''.'' \<and> CHR ''/'' \<notin> set e \<and> (rooted \<longrightarrow> e \<noteq> ''..''))"

text \<open>In the output of \<open>clean_elems\<close> every \<open>..\<close> stands before every other element.\<close>

definition ups_first :: "string list \<Rightarrow> bool" where
  "ups_first out = (''..'' \<notin> set (dropWhile (\<lambda>e. e = ''..'') out))"

section \<open>The lock registry\<close>

lemma getOrCreateMutex_grows: "mutexes d \<subseteq>\<^sub>m mutexes (snd (getOrCreateMutex d c))"
  by (auto simp: getOrCreateMutex_def map_le_def split: option.splits)

lemma getOrCreateMutex_stored:
  "getOrCreateMutex d c = (m, d') \<Longrightarrow> mutexes d' c = Some m"
  by (auto simp: getOrCreateMutex_def split: option.splits)

lemma getOrCreateMutex_again:
  "mutexes d c = Some m \<Longrightarrow> getOrCreateMutex d c = (m, d)"
  by (simp add: getOrCreateMutex_def)

lemma Write_driver:
  "fst (Write marshal d fs c r v) = d
   \<or> fst (Write marshal d fs c r v) = snd (getOrCreateMutex d c)"
  by (auto simp: Write_def Let_def split: prod.splits option.splits sum.splits)

lemma Delete_driver: "fst (Delete d fs c r) = snd (getOrCreateMutex d c)"
  by (auto simp: Delete_def Let_def split: prod.splits option.splits sum.splits)

lemma run_call_grows:
  "run_call marshal (d, fs) call = (d', fs') \<Longrightarrow> mutexes d \<subseteq>\<^sub>m mutexes d'"
proof (cases call)
  case (CallWrite c r v)
  assume "run_call marshal (d, fs) call = (d', fs')"
  with CallWrite have "d' = fst (Write marshal d fs c r v)"
    by (auto split: prod.splits)
  with Write_driver [of marshal d fs c r v] show ?thesis
    using getOrCreateMutex_grows [of d c] by auto
next
  case (CallDelete c r)
  assume "run_call marshal (d, fs) call = (d', fs')"
  with CallDelete have "d' = fst (Delete d fs c r)"
    by (auto split: prod.splits)
  then show ?thesis
    using getOrCreateMutex_grows [of d c] by (simp add: Delete_driver)
qed auto

lemma run_calls_grows:
  "run_calls marshal (d, fs) calls = (d', fs') \<Longrightarrow> mutexes d \<subseteq>\<^sub>m mutexes d'"
proof (induction calls arbitrary: d fs)
  case Nil
  then show ?case by (simp add: run_calls_def)
next
  case (Cons call calls)
  obtain d1 fs1 where s: "run_call marshal (d, fs) call = (d1, fs1)"
    by (cases "run_call marshal (d, fs) call")
  with Cons.prems have "run_calls marshal (d1, fs1) calls = (d', fs')"
    by (simp add: run_calls_def)
  then have "mutexes d1 \<subseteq>\<^sub>m mutexes d'" by (rule Cons.IH)
  moreover from s have "mutexes d \<subseteq>\<^sub>m mutexes d1" by (rule run_call_grows)
  ultimately show ?case by (rule map_le_trans [rotated])
qed

text \<open>
  Claim C9. A call of \<open>getOrCreateMutex\<close> for a collection \<open>c\<close> keeps every entry the
  registry already has, and stores the lock it returns under \<open>c\<close>. Whatever calls of
  \<open>Write\<close>, \<open>Read\<close>, \<open>ReadAll\<close> and \<open>Delete\<close> follow, the registry keeps all its entries
  (none is overwritten, none is removed), and \<open>getOrCreateMutex\<close> for \<open>c\<close> returns that
  same lock again and leaves the driver as it is.
\<close>

theorem registry_one_lock_per_collection:
  assumes "getOrCreateMutex d c = (m, d1)"
    and "run_calls marshal (d1, fs) calls = (d2, fs2)"
  shows "mutexes d \<subseteq>\<^sub>m mutexes d1 \<and> mutexes d1 \<subseteq>\<^sub>m mutexes d2
         \<and> mutexes d1 c = Some m \<and> getOrCreateMutex d2 c = (m, d2)"
proof -
  from assms(1) have a: "mutexes d \<subseteq>\<^sub>m mutexes d1"
    using getOrCreateMutex_grows [of d c] by simp
  from assms(2) have b: "mutexes d1 \<subseteq>\<^sub>m mutexes d2" by (rule run_calls_grows)
  from assms(1) have c: "mutexes d1 c = Some m" by (rule getOrCreateMutex_stored)
  with b have "mutexes d2 c = Some m" by (auto simp: map_le_def dom_def)
  then have "getOrCreateMutex d2 c = (m, d2)" by (rule getOrCreateMutex_again)
  with a b c show ?thesis by simp
qed

theorem registry_one_lock_per_collection_witness:
  "fst (getOrCreateMutex store_driver ''users'') = 0
   \<and> fst (getOrCreateMutex
        (fst (run_calls text_marshal (snd (getOrCreateMutex store_driver ''users''), store_fs)
           [CallWrite ''users'' ''john'' ''x'', CallDelete ''pets'' ''rex'',
            CallReadAll ''users'', CallWrite ''pets'' ''rex'' ''y'']))
        ''users'') = 0"
proof -
  let ?calls = "[CallWrite ''users'' ''john'' ''x'', CallDelete ''pets'' ''rex'',
            CallReadAll ''users'', CallWrite ''pets'' ''rex'' ''y'']"
  let ?s = "run_calls text_marshal (snd (getOrCreateMutex store_driver ''users''), store_fs) ?calls"
  have first: "fst (getOrCreateMutex store_driver ''users'') = 0"
    by code_simp
  have h1: "getOrCreateMutex store_driver ''users'' =
      (fst (getOrCreateMutex store_driver ''users''), snd (getOrCreateMutex store_driver ''users''))"
    by simp
  have h2: "?s = (fst ?s, snd ?s)"
    by simp
  from registry_one_lock_per_collection [OF h1 h2]
  have "getOrCreateMutex (fst ?s) ''users'' =
      (fst (getOrCreateMutex store_driver ''users''), fst ?s)"
    by (rule conjunct2 [THEN conjunct2, THEN conjunct2])
  then have "fst (getOrCreateMutex (fst ?s) ''users'') =
      fst (getOrCreateMutex store_driver ''users'')"
    by (rule arg_cong [where f = fst, THEN trans]) (rule fst_conv)
  with first show ?thesis
    by (simp only:)
qed

section \<open>Write: arguments and success\<close>

text \<open>
  Claim C6. \<open>Write\<close> with an empty collection fails with the error that names the
  collection, and with a non-empty collection and an empty resource with the error that
  names the resource; in both cases the driver and the filesystem are returned as they
  were. With both names non-empty, a value that \<open>marshal\<close> encodes, and the three
  filesystem calls (\<open>MkdirAll\<close>, \<open>WriteFile\<close>, \<open>Rename\<close>) succeeding, \<open>Write\<close> returns no
  error.
\<close>

theorem Write_checks_arguments:
  "(collection = [] \<longrightarrow>
      Write marshal d fs collection resource v =
        (d, fs, Some (Errorf ''Missing collection - no place to save record!'')))
   \<and> (collection \<noteq> [] \<and> resource = [] \<longrightarrow>
      Write marshal d fs collection resource v =
        (d, fs, Some (Errorf ''Missing resource - unable to save record (no name)!'')))
   \<and> (collection \<noteq> [] \<and> resource \<noteq> [] \<and> marshal v = Inr b
      \<and> os_MkdirAll fs (filepath_Join [dir d, collection]) = (fs1, None)
      \<and> ioutil_WriteFile fs1
           (filepath_Join [filepath_Join [dir d, collection], resource @ ''.json''] @ ''.tmp'')
           (b @ [CHR 0x0A]) = (fs2, None)
      \<and> os_Rename fs2
           (filepath_Join [filepath_Join [dir d, collection], resource @ ''.json''] @ ''.tmp'')
           (filepath_Join [filepath_Join [dir d, collection], resource @ ''.json'']) = (fs3, None)
      \<longrightarrow> Write marshal d fs collection resource v =
            (snd (getOrCreateMutex d collection), fs3, None))"
  by (auto simp: Write_def Let_def getOrCreateMutex_def split: prod.splits option.splits)

theorem Write_checks_arguments_witness:
  "Write text_marshal store_driver store_fs [] ''john'' ''x'' =
     (store_driver, store_fs, Some (Errorf ''Missing collection - no place to save record!''))
   \<and> Write text_marshal store_driver store_fs ''users'' [] ''x'' =
     (store_driver, store_fs,
      Some (Errorf ''Missing resource - unable to save record (no name)!''))
   \<and> Write text_marshal store_driver store_fs ''users'' ''john'' ''x'' =
     (snd (getOrCreateMutex store_driver ''users''),
      \<lparr>root = Dir [(''db'', Dir [(''users'',
          Dir [(''john.json'', File [CHR 0x22, CHR ''x'', CHR 0x22, CHR 0x0A])])])],
       cwd = []\<rparr>, None)"
proof -
  have m: "text_marshal ''x'' = Inr [CHR 0x22, CHR ''x'', CHR 0x22]"
    by code_simp
  have mk: "os_MkdirAll store_fs (filepath_Join [dir store_driver, ''users'']) =
      (\<lparr>root = Dir [(''db'', Dir [(''users'', Dir [])])], cwd = []\<rparr>, None)"
    by code_simp
  have wf: "ioutil_WriteFile \<lparr>root = Dir [(''db'', Dir [(''users'', Dir [])])], cwd = []\<rparr>
      (filepath_Join [filepath_Join [dir store_driver, ''users''], ''john'' @ ''.json'']
         @ ''.tmp'')
      ([CHR 0x22, CHR ''x'', CHR 0x22] @ [CHR 0x0A]) =
      (\<lparr>root = Dir [(''db'', Dir [(''users'',
          Dir [(''john.json.tmp'', File [CHR 0x22, CHR ''x'', CHR 0x22, CHR 0x0A])])])],
        cwd = []\<rparr>, None)"
    by code_simp
  have rn: "os_Rename \<lparr>root = Dir [(''db'', Dir [(''users'',
          Dir [(''john.json.tmp'', File [CHR 0x22, CHR ''x'', CHR 0x22, CHR 0x0A])])])],
        cwd = []\<rparr>
      (filepath_Join [filepath_Join [dir store_driver, ''users''], ''john'' @ ''.json'']
         @ ''.tmp'')
      (filepath_Join [filepath_Join [dir store_driver, ''users''], ''john'' @ ''.json'']) =
      (\<lparr>root = Dir [(''db'', Dir [(''users'',
          Dir [(''john.json'', File [CHR 0x22, CHR ''x'', CHR 0x22, CHR 0x0A])])])],
        cwd = []\<rparr>, None)"
    by code_simp
  have a: "Write text_marshal store_driver store_fs [] ''john'' ''x'' =
     (store_driver, store_fs, Some (Errorf ''Missing collection - no place to save record!''))"
    using Write_checks_arguments [where collection = "[]" and resource = "''john''"
        and marshal = text_marshal and v = "''x''" and d = store_driver and fs = store_fs,
        THEN conjunct1]
    by (simp only: simp_thms)
  have b: "Write text_marshal store_driver store_fs ''users'' [] ''x'' =
     (store_driver, store_fs,
      Some (Errorf ''Missing resource - unable to save record (no name)!''))"
    using Write_checks_arguments [where collection = "''users''" and resource = "[]"
        and marshal = text_marshal and v = "''x''" and d = store_driver and fs = store_fs,
        THEN conjunct2, THEN conjunct1]
    by simp
  have c: "Write text_marshal store_driver store_fs ''users'' ''john'' ''x'' =
     (snd (getOrCreateMutex store_driver ''users''),
      \<lparr>root = Dir [(''db'', Dir [(''users'',
          Dir [(''john.json'', File [CHR 0x22, CHR ''x'', CHR 0x22, CHR 0x0A])])])],
       cwd = []\<rparr>, None)"
    using Write_checks_arguments [where collection = "''users''" and resource = "''john''"
        and marshal = text_marshal and v = "''x''" and d = store_driver and fs = store_fs,
        THEN conjunct2, THEN conjunct2, rule_format,
        OF conjI [OF _ conjI [OF _ conjI [OF m conjI [OF mk conjI [OF wf rn]]]]]]
    by simp
  from a b c show ?thesis by (simp only: simp_thms)
qed

section \<open>ReadAll\<close>

lemma readAllLoop_find:
  "readAllLoop fs dir' files records =
    (case find (\<lambda>file. isl (ioutil_ReadFile fs (filepath_Join [dir', Name file]))) files of
       Some file \<Rightarrow> Inl (projl (ioutil_ReadFile fs (filepath_Join [dir', Name file])))
     | None \<Rightarrow> Inr (records @
         map (\<lambda>file. projr (ioutil_ReadFile fs (filepath_Join [dir', Name file]))) files))"
proof (induction files arbitrary: records)
  case Nil
  show ?case by simp
next
  case (Cons f files)
  show ?case
  proof (cases "ioutil_ReadFile fs (filepath_Join [dir', Name f])")
    case (Inl err)
    then show ?thesis by simp
  next
    case (Inr b)
    then show ?thesis by (simp add: Cons.IH split: option.split)
  qed
qed

text \<open>
  Claim C7 as stated fails: the error of listing the directory is discarded. In a store
  where \<open>users\<close> does not exist and \<open>users.json\<close> is a directory, \<open>ReadAll\<close> of
  \<open>users\<close> passes the existence probe through \<open>users.json\<close>; listing \<open>users\<close> fails;
  no read of a file fails, as none is attempted; and \<open>ReadAll\<close> returns the empty list,
  not the content of the file \<open>k\<close> in the directory that passed the probe.
\<close>

theorem ReadAll_misses_probed_directory:
  "stat suffixed_fs (filepath_Join [dir store_driver, ''users'']) =
     Inr (FileInfo ''users.json'' True)
   \<and> ioutil_ReadDir suffixed_fs (filepath_Join [dir store_driver, ''users'']) =
     Inl (PathError ''open'' ''/db/users'' ENOENT)
   \<and> ioutil_ReadDir suffixed_fs (filepath_Join [dir store_driver, ''users''] @ ''.json'') =
     Inr [FileInfo ''k'' False]
   \<and> ioutil_ReadFile suffixed_fs ''/db/users.json/k'' =
     Inr [CHR 0x22, CHR ''K'', CHR 0x22, CHR 0x0A]
   \<and> ReadAll store_driver suffixed_fs ''users'' = Inr []"
  by code_simp

text \<open>
  Claim C7, amended. Take a non-empty collection whose directory passes the existence
  probe. When listing the directory of the collection succeeds with the entries
  \<open>files\<close>: if the read of some entry fails, \<open>ReadAll\<close> returns the error of the first
  entry whose read fails, and no list; otherwise it returns the content of every entry,
  in the order of the listing. When listing the directory fails, \<open>ReadAll\<close> returns the
  empty list and no error.
\<close>

theorem ReadAll_all_or_nothing:
  assumes "collection \<noteq> []"
    and "stat fs (filepath_Join [dir d, collection]) = Inr fi"
  shows "(\<forall>files. ioutil_ReadDir fs (filepath_Join [dir d, collection]) = Inr files \<longrightarrow>
      ReadAll d fs collection =
        (case find (\<lambda>file. isl (ioutil_ReadFile fs
                     (filepath_Join [filepath_Join [dir d, collection], Name file]))) files of
           Some file \<Rightarrow>
             Inl (projl (ioutil_ReadFile fs
                    (filepath_Join [filepath_Join [dir d, collection], Name file])))
         | None \<Rightarrow>
             Inr (map (\<lambda>file. projr (ioutil_ReadFile fs
                    (filepath_Join [filepath_Join [dir d, collection], Name file]))) files)))
    \<and> (\<forall>err. ioutil_ReadDir fs (filepath_Join [dir d, collection]) = Inl err \<longrightarrow>
          ReadAll d fs collection = Inr [])"
proof (intro conjI allI impI)
  fix files
  assume "ioutil_ReadDir fs (filepath_Join [dir d, collection]) = Inr files"
  with assms have "ReadAll d fs collection =
      readAllLoop fs (filepath_Join [dir d, collection]) files []"
    by (simp add: ReadAll_def Let_def)
  then show "ReadAll d fs collection =
        (case find (\<lambda>file. isl (ioutil_ReadFile fs
                     (filepath_Join [filepath_Join [dir d, collection], Name file]))) files of
           Some file \<Rightarrow>
             Inl (projl (ioutil_ReadFile fs
                    (filepath_Join [filepath_Join [dir d, collection], Name file])))
         | None \<Rightarrow>
             Inr (map (\<lambda>file. projr (ioutil_ReadFile fs
                    (filepath_Join [filepath_Join [dir d, collection], Name file]))) files))"
    by (simp add: readAllLoop_find split: option.split)
next
  fix err
  assume "ioutil_ReadDir fs (filepath_Join [dir d, collection]) = Inl err"
  with assms show "ReadAll d fs collection = Inr []"
    by (simp add: ReadAll_def Let_def)
qed

theorem ReadAll_all_or_nothing_witness:
  "ReadAll store_driver users_fs ''users'' =
     Inr [[CHR 0x22, CHR ''J'', CHR 0x22, CHR 0x0A], [CHR 0x22, CHR ''P'', CHR 0x22, CHR 0x0A]]
   \<and> ReadAll store_driver nested_fs ''users'' = Inl (PathError ''read'' ''/db/users/old'' EISDIR)
   \<and> ReadAll store_driver suffixed_fs ''users'' = Inr []"
proof -
  have ne: "''users'' \<noteq> []"
    by simp
  have s1: "stat users_fs (filepath_Join [dir store_driver, ''users'']) =
      Inr (FileInfo ''users'' True)"
    by code_simp
  have f1: "ioutil_ReadDir users_fs (filepath_Join [dir store_driver, ''users'']) =
      Inr [FileInfo ''john.json'' False, FileInfo ''paul.json'' False]"
    by code_simp
  have a: "ReadAll store_driver users_fs ''users'' =
     Inr [[CHR 0x22, CHR ''J'', CHR 0x22, CHR 0x0A], [CHR 0x22, CHR ''P'', CHR 0x22, CHR 0x0A]]"
    by (rule trans [OF ReadAll_all_or_nothing [OF ne s1, THEN conjunct1, THEN spec, THEN mp,
          OF f1]]) code_simp
  have s2: "stat nested_fs (filepath_Join [dir store_driver, ''users'']) =
      Inr (FileInfo ''users'' True)"
    by code_simp
  have f2: "ioutil_ReadDir nested_fs (filepath_Join [dir store_driver, ''users'']) =
      Inr [FileInfo ''john.json'' False, FileInfo ''old'' True, FileInfo ''paul.json'' False]"
    by code_simp
  have b: "ReadAll store_driver nested_fs ''users'' =
     Inl (PathError ''read'' ''/db/users/old'' EISDIR)"
    by (rule trans [OF ReadAll_all_or_nothing [OF ne s2, THEN conjunct1, THEN spec, THEN mp,
          OF f2]]) code_simp
  have s3: "stat suffixed_fs (filepath_Join [dir store_driver, ''users'']) =
      Inr (FileInfo ''users.json'' True)"
    by code_simp
  have f3: "ioutil_ReadDir suffixed_fs (filepath_Join [dir store_driver, ''users'']) =
      Inl (PathError ''open'' ''/db/users'' ENOENT)"
    by code_simp
  have c: "ReadAll store_driver suffixed_fs ''users'' = Inr []"
    by (rule ReadAll_all_or_nothing [OF ne s3, THEN conjunct2, THEN spec, THEN mp, OF f3])
  from a b c show ?thesis
    by (intro conjI)
qed

section \<open>Names that already carry the extension\<close>

text \<open>
  Claim C3, at a resource name that carries the extension. The collection \<open>users\<close> holds
  the resource \<open>john\<close> in the file \<open>john.json\<close>. \<open>Delete\<close> of \<open>john\<close> removes that file.
  \<open>Delete\<close> of \<open>john.json\<close> finds the file by the path as it is, removes the path
  \<open>john.json.json\<close>, which does not exist, and returns no error: the file is still there
  with its content.
\<close>

theorem Delete_name_with_extension:
  "snd (Delete store_driver users_fs ''users'' ''john'') =
     (\<lparr>root = Dir [(''db'', Dir [(''users'',
        Dir [(''paul.json'', File [CHR 0x22, CHR ''P'', CHR 0x22, CHR 0x0A])])])], cwd = []\<rparr>,
      None)
   \<and> snd (Delete store_driver users_fs ''users'' ''john.json'') = (users_fs, None)
   \<and> ioutil_ReadFile users_fs ''/db/users/john.json'' =
       Inr [CHR 0x22, CHR ''J'', CHR 0x22, CHR 0x0A]"
  by code_simp

text \<open>
  Claim C4, at a resource name that carries the extension. \<open>Read\<close> of \<open>john\<close> returns the
  stored value. \<open>Read\<close> of \<open>john.json\<close> builds the path \<open>john.json.json\<close>, probes it and
  \<open>john.json.json.json\<close>, finds neither, and returns the error of the probe.
\<close>

theorem Read_name_with_extension:
  "Read text_unmarshal store_driver users_fs ''users'' ''john'' = Inr ''J''
   \<and> Read text_unmarshal store_driver users_fs ''users'' ''john.json'' =
       Inl (PathError ''stat'' ''/db/users/john.json.json.json'' ENOENT)"
  by code_simp

section \<open>Cleaning a path does not change what it names\<close>

lemma split_path_not_Nil: "split_path s \<noteq> []"
  by (induction s) (auto split: list.splits)

lemma split_path_append:
  "split_path (a @ CHR ''/'' # b) = split_path a @ split_path b"
  by (induction a) (auto split: list.splits simp: split_path_not_Nil)

lemma split_path_plain: "CHR ''/'' \<notin> set x \<Longrightarrow> split_path x = [x]"
  by (induction x) auto

lemma split_path_elems: "e \<in> set (split_path s) \<Longrightarrow> CHR ''/'' \<notin> set e"
proof (induction s arbitrary: e)
  case Nil
  then show ?case by simp
next
  case (Cons c s)
  then show ?case
    by (cases "split_path s") (auto split: if_splits simp: split_path_not_Nil)
qed

lemma split_join_with:
  "es \<noteq> [] \<Longrightarrow> \<forall>e\<in>set es. CHR ''/'' \<notin> set e \<Longrightarrow> split_path (join_with es) = es"
proof (induction es rule: join_with.induct)
  case 1
  then show ?case by simp
next
  case (2 x)
  then show ?case by (simp add: split_path_plain)
next
  case (3 x y ys)
  then show ?case by (simp add: split_path_append split_path_plain)
qed

lemma walk_append: "walk at (xs @ ys) = walk (walk at xs) ys"
  by (induction xs arbitrary: at) auto

lemma walk_snoc_plain:
  "e \<noteq> [] \<Longrightarrow> e \<noteq> ''.'' \<Longrightarrow> e \<noteq> ''..'' \<Longrightarrow> walk at (s @ [e]) = walk at s @ [e]"
  by (simp add: walk_append)

lemma clean_inv_butlast: "clean_inv r out \<Longrightarrow> clean_inv r (butlast out)"
  by (auto simp: clean_inv_def dest: in_set_butlastD)

lemma clean_inv_snoc:
  "clean_inv r out \<Longrightarrow> x \<noteq> [] \<Longrightarrow> x \<noteq> ''.'' \<Longrightarrow> CHR ''/'' \<notin> set x \<Longrightarrow> (r \<longrightarrow> x \<noteq> ''..'')
    \<Longrightarrow> clean_inv r (out @ [x])"
  by (auto simp: clean_inv_def)

lemma clean_elems_inv:
  "clean_inv r out \<Longrightarrow> \<forall>e\<in>set es. CHR ''/'' \<notin> set e \<Longrightarrow> clean_inv r (clean_elems r out es)"
proof (induction es arbitrary: out)
  case Nil
  then show ?case by simp
next
  case (Cons e es)
  from Cons.prems(2) have rest: "\<forall>e\<in>set es. CHR ''/'' \<notin> set e" and e: "CHR ''/'' \<notin> set e"
    by simp_all
  consider (dot) "e = [] \<or> e = ''.''"
    | (up_pop) "e = ''..''" "out \<noteq> [] \<and> last out \<noteq> ''..''"
    | (up_root) "e = ''..''" "\<not> (out \<noteq> [] \<and> last out \<noteq> ''..'')" "r"
    | (up_keep) "e = ''..''" "\<not> (out \<noteq> [] \<and> last out \<noteq> ''..'')" "\<not> r"
    | (plain) "e \<noteq> []" "e \<noteq> ''.''" "e \<noteq> ''..''"
    by blast
  then show ?case
  proof cases
    case dot
    with Cons.IH [OF Cons.prems(1) rest] show ?thesis by auto
  next
    case up_pop
    with Cons.IH [OF clean_inv_butlast [OF Cons.prems(1)] rest] show ?thesis by simp
  next
    case up_root
    with Cons.IH [OF Cons.prems(1) rest] show ?thesis by auto
  next
    case up_keep
    have "clean_inv r (out @ [''..''])"
      using Cons.prems(1) up_keep(3) by (intro clean_inv_snoc) simp_all
    from Cons.IH [OF this rest] up_keep show ?thesis by auto
  next
    case plain
    have "clean_inv r (out @ [e])"
      using Cons.prems(1) plain e by (intro clean_inv_snoc) simp_all
    from Cons.IH [OF this rest] plain show ?thesis by simp
  qed
qed

lemma walk_clean_elems:
  "clean_inv r out \<Longrightarrow> \<forall>e\<in>set es. CHR ''/'' \<notin> set e \<Longrightarrow> (r \<longrightarrow> at = []) \<Longrightarrow>
     walk at (clean_elems r out es) = walk (walk at out) es"
proof (induction es arbitrary: out)
  case Nil
  then show ?case by simp
next
  case (Cons e es)
  from Cons.prems(2) have rest: "\<forall>e\<in>set es. CHR ''/'' \<notin> set e" and e: "CHR ''/'' \<notin> set e"
    by simp_all
  consider (dot) "e = [] \<or> e = ''.''"
    | (up_pop) "e = ''..''" "out \<noteq> [] \<and> last out \<noteq> ''..''"
    | (up_root) "e = ''..''" "\<not> (out \<noteq> [] \<and> last out \<noteq> ''..'')" "r"
    | (up_keep) "e = ''..''" "\<not> (out \<noteq> [] \<and> last out \<noteq> ''..'')" "\<not> r"
    | (plain) "e \<noteq> []" "e \<noteq> ''.''" "e \<noteq> ''..''"
    by blast
  then show ?case
  proof cases
    case dot
    with Cons.IH [OF Cons.prems(1) rest Cons.prems(3)] show ?thesis by auto
  next
    case up_pop
    from up_pop(2) have out: "out = butlast out @ [last out]" by simp
    from up_pop(2) Cons.prems(1) have l: "last out \<noteq> []" "last out \<noteq> ''.''" "last out \<noteq> ''..''"
      by (auto simp: clean_inv_def)
    have "walk at out = walk at (butlast out) @ [last out]"
      using walk_snoc_plain [OF l, of at "butlast out"] out by simp
    then have "walk at (butlast out) = butlast (walk at out)" by simp
    with Cons.IH [OF clean_inv_butlast [OF Cons.prems(1)] rest Cons.prems(3)] up_pop
    show ?thesis by simp
  next
    case up_root
    have "out = []"
    proof (rule ccontr)
      assume ne: "out \<noteq> []"
      then have "last out \<in> set out" by simp
      with Cons.prems(1) up_root(3) have "last out \<noteq> ''..''"
        unfolding clean_inv_def by blast
      with ne up_root(2) show False by blast
    qed
    with Cons.IH [OF Cons.prems(1) rest Cons.prems(3)] up_root Cons.prems(3) show ?thesis by auto
  next
    case up_keep
    have "clean_inv r (out @ [''..''])"
      using Cons.prems(1) up_keep(3) by (intro clean_inv_snoc) simp_all
    from Cons.IH [OF this rest Cons.prems(3)] up_keep show ?thesis by (auto simp: walk_append)
  next
    case plain
    have "clean_inv r (out @ [e])"
      using Cons.prems(1) plain e by (intro clean_inv_snoc) simp_all
    from Cons.IH [OF this rest Cons.prems(3)] plain show ?thesis by (simp add: walk_append)
  qed
qed

lemma is_rooted_append: "x \<noteq> [] \<Longrightarrow> is_rooted (x @ y) = is_rooted x"
  by (cases x) (simp_all add: is_rooted_def)

lemma walk_empty_elem: "walk at ([] # es) = walk at es"
  by simp

lemma join_with_Cons:
  "join_with (x # xs) = x @ (if xs = [] then [] else CHR ''/'' # join_with xs)"
  by (cases xs) simp_all

lemma filepath_Clean_not_Nil: "filepath_Clean p \<noteq> []"
proof -
  have "join_with out \<noteq> []" if "out \<noteq> []" "clean_inv r out" for r out
    using that by (cases out) (auto simp: clean_inv_def join_with_Cons simp del: join_with.simps)
  moreover have "clean_inv (is_rooted p) (clean_elems (is_rooted p) [] (split_path p))"
    by (rule clean_elems_inv) (auto simp: clean_inv_def dest: split_path_elems)
  ultimately show ?thesis
    by (auto simp: filepath_Clean_def Let_def)
qed

lemma is_rooted_plain: "CHR ''/'' \<notin> set x \<Longrightarrow> \<not> is_rooted x"
  by (cases x) (auto simp: is_rooted_def)

lemma is_rooted_join_with:
  "clean_inv r out \<Longrightarrow> \<not> is_rooted (join_with out)"
proof (cases out)
  case Nil
  then show ?thesis by (simp add: is_rooted_def)
next
  case (Cons x xs)
  assume "clean_inv r out"
  with Cons have "x \<noteq> []" and "CHR ''/'' \<notin> set x"
    by (simp_all add: clean_inv_def)
  then show ?thesis
    unfolding Cons join_with_Cons by (simp only: is_rooted_append is_rooted_plain simp_thms)
qed

lemma is_rooted_Clean: "is_rooted (filepath_Clean p) = is_rooted p"
proof -
  have "clean_inv (is_rooted p) (clean_elems (is_rooted p) [] (split_path p))"
    by (rule clean_elems_inv) (auto simp: clean_inv_def dest: split_path_elems)
  from is_rooted_join_with [OF this] show ?thesis
    by (auto simp: filepath_Clean_def Let_def is_rooted_def)
qed

lemma resolve_Clean: "resolve fs (filepath_Clean p) = resolve fs p"
proof (cases "p = []")
  case True
  then show ?thesis by (simp add: filepath_Clean_def resolve_def is_rooted_def)
next
  case False
  let ?r = "is_rooted p"
  let ?at = "if ?r then [] else cwd fs"
  let ?out = "clean_elems ?r [] (split_path p)"
  have inv: "clean_inv ?r ?out"
    by (rule clean_elems_inv) (auto simp: clean_inv_def dest: split_path_elems)
  have slash: "\<forall>e\<in>set (split_path p). CHR ''/'' \<notin> set e"
    by (auto dest: split_path_elems)
  have w: "walk ?at ?out = walk ?at (split_path p)"
    using walk_clean_elems [of ?r "[]" "split_path p" ?at] slash
    by (simp add: clean_inv_def)
  have sp: "walk ?at (split_path (join_with ?out)) = walk ?at ?out"
  proof (cases "?out = []")
    case True
    then show ?thesis by simp
  next
    case False
    with inv have "split_path (join_with ?out) = ?out"
      by (intro split_join_with) (auto simp: clean_inv_def)
    then show ?thesis by simp
  qed
  have dot: "walk ?at (split_path ''.'') = walk ?at []"
    by simp
  show ?thesis
  proof (cases ?r)
    case True
    then have "filepath_Clean p = CHR ''/'' # join_with ?out"
      using False by (simp add: filepath_Clean_def Let_def)
    then have "resolve fs (filepath_Clean p) = walk [] (split_path (join_with ?out))"
      by (simp add: resolve_def is_rooted_def)
    with sp w True show ?thesis by (simp add: resolve_def)
  next
    case nr: False
    show ?thesis
    proof (cases "?out = []")
      case True
      with nr False have "filepath_Clean p = ''.''"
        by (simp add: filepath_Clean_def Let_def)
      with w True nr show ?thesis by (simp add: resolve_def is_rooted_def)
    next
      case ne: False
      with nr False have c: "filepath_Clean p = join_with ?out"
        by (simp add: filepath_Clean_def Let_def)
      have "\<not> is_rooted (join_with ?out)"
        using inv by (rule is_rooted_join_with)
      with c sp w nr show ?thesis by (simp add: resolve_def)
    qed
  qed
qed

lemma resolve_slash:
  "x \<noteq> [] \<Longrightarrow> resolve fs (x @ CHR ''/'' # y) = walk (resolve fs x) (split_path y)"
  by (simp add: resolve_def is_rooted_append split_path_append walk_append)

lemma filepath_Join_two:
  "a \<noteq> [] \<Longrightarrow> filepath_Join [a, b] = filepath_Clean (a @ CHR ''/'' # b)"
  by (cases a) (simp_all add: filepath_Join_def)

lemma resolve_Join_two:
  "a \<noteq> [] \<Longrightarrow> resolve fs (filepath_Join [a, b]) = walk (resolve fs a) (split_path b)"
  by (simp add: filepath_Join_two resolve_Clean resolve_slash)

lemma filepath_Join_not_Nil: "\<exists>e\<in>set es. e \<noteq> [] \<Longrightarrow> filepath_Join es \<noteq> []"
proof -
  assume "\<exists>e\<in>set es. e \<noteq> []"
  then have "dropWhile (\<lambda>e. e = []) es \<noteq> []"
    by auto
  then show ?thesis
    by (auto simp: filepath_Join_def filepath_Clean_not_Nil split: list.splits)
qed

lemma resolve_Join_Join:
  assumes "c \<noteq> []"
  shows "resolve fs (filepath_Join [filepath_Join [a, c], rj]) =
         resolve fs (filepath_Join [a, c, rj])"
proof -
  have ne: "filepath_Join [a, c] \<noteq> []"
    using assms by (intro filepath_Join_not_Nil) auto
  have l: "resolve fs (filepath_Join [filepath_Join [a, c], rj]) =
      walk (resolve fs (filepath_Join [a, c])) (split_path rj)"
    using ne by (rule resolve_Join_two)
  show ?thesis
  proof (cases "a = []")
    case True
    with assms have "filepath_Join [a, c] = filepath_Clean c"
      and "filepath_Join [a, c, rj] = filepath_Clean (c @ CHR ''/'' # rj)"
      by (cases c; simp add: filepath_Join_def)+
    with l assms show ?thesis by (simp add: resolve_Clean resolve_slash)
  next
    case False
    then have "filepath_Join [a, c] = filepath_Clean (a @ CHR ''/'' # c)"
      and "filepath_Join [a, c, rj] = filepath_Clean (a @ CHR ''/'' # c @ CHR ''/'' # rj)"
      by (cases a; simp add: filepath_Join_def)+
    moreover have "resolve fs ((a @ CHR ''/'' # c) @ CHR ''/'' # rj) =
        walk (resolve fs (a @ CHR ''/'' # c)) (split_path rj)"
      by (rule resolve_slash) simp
    ultimately show ?thesis using l by (simp add: resolve_Clean)
  qed
qed

section \<open>The entries of a directory\<close>

text \<open>
  For an entry of a directory with an ordinary name, the path \<open>ReadAll\<close> joins from the
  directory and the name of the entry is the path of that entry.
\<close>

lemma lookup_append: "lookup t p = Inr n \<Longrightarrow> lookup t (p @ q) = lookup n q"
proof (induction t p rule: lookup.induct)
  case (1 n)
  then show ?case by simp
next
  case (2 b x xs)
  then show ?case by simp
next
  case (3 es x xs)
  then show ?case by (auto split: option.splits)
qed

lemma ReadFile_entry:
  assumes "dir' \<noteq> []"
    and "lookup (root fs) (resolve fs dir') = Inr (Dir es)"
    and "map_of es name = Some (File b)"
    and "name \<noteq> []" and "name \<noteq> ''.''" and "name \<noteq> ''..''" and "CHR ''/'' \<notin> set name"
  shows "ioutil_ReadFile fs (filepath_Join [dir', name]) = Inr b"
proof -
  have "resolve fs (filepath_Join [dir', name]) = walk (resolve fs dir') (split_path name)"
    using assms(1) by (rule resolve_Join_two)
  also have "\<dots> = resolve fs dir' @ [name]"
    using assms(4-7) by (simp add: split_path_plain)
  finally have "lookup (root fs) (resolve fs (filepath_Join [dir', name])) = lookup (Dir es) [name]"
    using lookup_append [OF assms(2)] by simp
  moreover have "filepath_Join [dir', name] \<noteq> []"
    using assms(1) by (intro filepath_Join_not_Nil) simp
  ultimately show ?thesis
    using assms(3) by (simp add: ioutil_ReadFile_def)
qed

section \<open>Write followed by Read\<close>

lemma place_lookup: "place t p n = Inr t' \<Longrightarrow> lookup t' p = Inr n"
proof (induction t p n arbitrary: t' rule: place.induct)
  case (1 t n)
  then show ?case by simp
next
  case (2 b x xs n)
  then show ?case by simp
next
  case (3 es x n)
  then show ?case by (auto simp: update_conv')
next
  case (4 es x y ys n)
  then show ?case
    by (auto simp: update_conv' split: option.splits sum.splits)
qed

lemma getOrCreateMutex_dir: "dir (snd (getOrCreateMutex d c)) = dir d"
  by (simp add: getOrCreateMutex_def split: option.splits)

lemma WriteFile_content:
  "ioutil_WriteFile fs path data = (fs', None) \<Longrightarrow>
     lookup (root fs') (resolve fs' path) = Inr (File data) \<and> cwd fs' = cwd fs"
  by (auto simp: ioutil_WriteFile_def resolve_def dest: place_lookup
      split: if_splits sum.splits node.splits errno.splits)

lemma Rename_moves:
  "os_Rename fs oldname newname = (fs', None) \<Longrightarrow>
     lookup (root fs) (resolve fs oldname) = Inr n \<Longrightarrow>
     lookup (root fs') (resolve fs' newname) = Inr n \<and> cwd fs' = cwd fs \<and> newname \<noteq> []"
  by (auto simp: os_Rename_def Let_def resolve_def dest: place_lookup
      split: if_splits sum.splits node.splits errno.splits)

lemma Write_dir: "Write marshal d fs c r v = (d', fs', e) \<Longrightarrow> dir d' = dir d"
  using Write_driver [of marshal d fs c r v] by (auto simp: getOrCreateMutex_dir)

text \<open>
  Claim C1 as stated fails: \<open>encoding/json\<close> does not give back every value it encodes.
  A \<open>json.Number\<close> that holds the empty string (the \<open>Age\<close> of a \<open>User\<close> that was never
  set) is a value \<open>Write\<close> accepts: it is written as \<open>0\<close>, \<open>Write\<close> returns no error,
  and \<open>Read\<close> returns the \<open>Number\<close> \<open>0\<close>, which is not the value written.
\<close>

theorem Write_then_Read_changes_value:
  "Number_marshal [] = Inr ''0''
   \<and> snd (Write Number_marshal store_driver store_fs ''users'' ''john'' []) =
      (\<lparr>root = Dir [(''db'', Dir [(''users'',
          Dir [(''john.json'', File [CHR ''0'', CHR 0x0A])])])], cwd = []\<rparr>, None)
   \<and> Read Number_unmarshal
        (fst (Write Number_marshal store_driver store_fs ''users'' ''john'' []))
        (fst (snd (Write Number_marshal store_driver store_fs ''users'' ''john'' [])))
        ''users'' ''john'' = Inr ''0''
   \<and> Read Number_unmarshal
        (fst (Write Number_marshal store_driver store_fs ''users'' ''john'' []))
        (fst (snd (Write Number_marshal store_driver store_fs ''users'' ''john'' [])))
        ''users'' ''john'' \<noteq> Inr []"
  by code_simp

text \<open>
  Claim C1, amended. For a non-empty collection and resource: when \<open>Write\<close> of a value
  \<open>v\<close> returns no error, \<open>v\<close> was encoded to some text, and \<open>Read\<close> of the same
  collection and resource on the driver and the filesystem that \<open>Write\<close> left returns
  what the decoder makes of that text followed by a newline. So \<open>Read\<close> returns \<open>v\<close>
  for every value that the codec (a parameter here) decodes back from its own encoding.
\<close>

theorem Write_then_Read:
  assumes "collection \<noteq> []" and "resource \<noteq> []"
    and "Write marshal d fs collection resource v = (d', fs', None)"
  shows "(\<exists>b. marshal v = Inr b
            \<and> Read unmarshal d' fs' collection resource = unmarshal (b @ [CHR 0x0A]))
    \<and> ((\<forall>b. marshal v = Inr b \<longrightarrow> unmarshal (b @ [CHR 0x0A]) = Inr v)
          \<longrightarrow> Read unmarshal d' fs' collection resource = Inr v)"
proof -
  let ?dir = "filepath_Join [dir d, collection]"
  let ?fnl = "filepath_Join [?dir, resource @ ''.json'']"
  let ?tmp = "?fnl @ ''.tmp''"
  let ?rpath = "filepath_Join [dir d, collection, resource @ ''.json'']"
  from assms(3) have dd: "dir d' = dir d"
    by (rule Write_dir)
  from assms(1-3) obtain fs1 b fs2 where
    m: "marshal v = Inr b"
    and w: "ioutil_WriteFile fs1 ?tmp (b @ [CHR 0x0A]) = (fs2, None)"
    and rn: "os_Rename fs2 ?tmp ?fnl = (fs', None)"
    by (auto simp: Write_def Let_def dd
        split: prod.splits option.splits sum.splits)
  from w have "lookup (root fs2) (resolve fs2 ?tmp) = Inr (File (b @ [CHR 0x0A]))"
    by (simp add: WriteFile_content)
  with rn have f: "lookup (root fs') (resolve fs' ?fnl) = Inr (File (b @ [CHR 0x0A]))"
    by (simp add: Rename_moves)
  have same: "resolve fs' ?rpath = resolve fs' ?fnl"
    using assms(1) by (simp add: resolve_Join_Join)
  have ne: "?rpath \<noteq> []"
    using assms(1) by (intro filepath_Join_not_Nil) simp
  from f same ne have st: "os_Stat fs' ?rpath = Inr (FileInfo (last (split_path ?rpath)) False)"
    by (simp add: os_Stat_def)
  from f same ne have rd: "ioutil_ReadFile fs' ?rpath = Inr (b @ [CHR 0x0A])"
    by (simp add: ioutil_ReadFile_def)
  from dd assms(1,2) st rd
  have "Read unmarshal d' fs' collection resource = unmarshal (b @ [CHR 0x0A])"
    by (simp add: Read_def stat_def Let_def)
  with m show ?thesis
    by auto
qed

theorem Write_then_Read_witness:
  "Write text_marshal store_driver store_fs ''users'' ''john'' ''J'' =
     (snd (getOrCreateMutex store_driver ''users''),
      \<lparr>root = Dir [(''db'', Dir [(''users'',
          Dir [(''john.json'', File [CHR 0x22, CHR ''J'', CHR 0x22, CHR 0x0A])])])],
       cwd = []\<rparr>, None)
   \<and> Read text_unmarshal (snd (getOrCreateMutex store_driver ''users''))
      \<lparr>root = Dir [(''db'', Dir [(''users'',
          Dir [(''john.json'', File [CHR 0x22, CHR ''J'', CHR 0x22, CHR 0x0A])])])],
       cwd = []\<rparr> ''users'' ''john'' = Inr ''J''"
proof -
  let ?fs = "\<lparr>root = Dir [(''db'', Dir [(''users'',
          Dir [(''john.json'', File [CHR 0x22, CHR ''J'', CHR 0x22, CHR 0x0A])])])],
       cwd = []\<rparr>"
  have c: "''users'' \<noteq> []" and r: "''john'' \<noteq> []"
    by simp_all
  have "snd (Write text_marshal store_driver store_fs ''users'' ''john'' ''J'') = (?fs, None)"
    by code_simp
  moreover have "fst (Write text_marshal store_driver store_fs ''users'' ''john'' ''J'') =
      snd (getOrCreateMutex store_driver ''users'')"
    by (simp add: Write_def Let_def split: prod.splits option.splits sum.splits)
  ultimately have w: "Write text_marshal store_driver store_fs ''users'' ''john'' ''J'' =
      (snd (getOrCreateMutex store_driver ''users''), ?fs, None)"
    by (simp add: prod_eq_iff)
  have codec: "\<forall>b. text_marshal ''J'' = Inr b \<longrightarrow> text_unmarshal (b @ [CHR 0x0A]) = Inr ''J''"
    by (auto simp: text_marshal_def text_unmarshal_def)
  have "Read text_unmarshal (snd (getOrCreateMutex store_driver ''users'')) ?fs
      ''users'' ''john'' = Inr ''J''"
    by (rule Write_then_Read [where unmarshal = text_unmarshal, OF c r w,
          THEN conjunct2, THEN mp, OF codec])
  with w show ?thesis
    by (simp only: simp_thms)
qed

section \<open>Write of a value that cannot be encoded\<close>

lemma lookup_empty_dir: "lookup (Dir []) q = Inr (File b) \<longleftrightarrow> False"
  by (cases q) simp_all

lemma mkdir_all_files:
  "mkdir_all t p = Inr t' \<Longrightarrow> (lookup t' q = Inr (File b)) = (lookup t q = Inr (File b))"
proof (induction t p arbitrary: t' q rule: mkdir_all.induct)
  case (1 b p)
  then show ?case by simp
next
  case (2 es)
  then show ?case by simp
next
  case (3 es x xs)
  let ?c = "case map_of es x of None \<Rightarrow> Dir [] | Some c \<Rightarrow> c"
  from "3.prems" obtain c' where c': "mkdir_all ?c xs = Inr c'"
    and t': "t' = Dir (AList.update x c' es)"
    by (auto split: sum.splits)
  show ?case
  proof (cases q)
    case Nil
    with t' show ?thesis by simp
  next
    case (Cons y ys)
    show ?thesis
    proof (cases "y = x")
      case False
      with Cons t' show ?thesis by (simp add: update_conv')
    next
      case True
      from "3.IH" [OF c'] have "(lookup c' ys = Inr (File b)) = (lookup ?c ys = Inr (File b))" .
      with True Cons t' show ?thesis
        by (auto simp: update_conv' lookup_empty_dir split: option.splits)
    qed
  qed
qed

lemma ReadFile_iff:
  "ioutil_ReadFile fs path = Inr b \<longleftrightarrow>
     path \<noteq> [] \<and> lookup (root fs) (resolve fs path) = Inr (File b)"
  by (auto simp: ioutil_ReadFile_def split: sum.splits node.splits)

lemma MkdirAll_files:
  "ioutil_ReadFile (fst (os_MkdirAll fs p)) path = Inr b \<longleftrightarrow> ioutil_ReadFile fs path = Inr b"
  by (auto simp: os_MkdirAll_def ReadFile_iff resolve_def mkdir_all_files split: sum.splits)

text \<open>
  Claim C2 as stated fails: \<open>Write\<close> calls \<open>MkdirAll\<close> before it encodes the value. In
  the store at \<open>/db\<close> without the collection \<open>users\<close>, \<open>Write\<close> of a value that
  cannot be encoded returns the encoding error, and the directory \<open>/db/users\<close>, which
  did not exist, exists afterwards.
\<close>

theorem Write_unserializable_creates_directory:
  "text_marshal [CHR ''a'', CHR 0x22] = Inl (JSONError ''unsupported value'')
   \<and> os_Stat store_fs ''/db/users'' = Inl (PathError ''stat'' ''/db/users'' ENOENT)
   \<and> snd (Write text_marshal store_driver store_fs ''users'' ''john'' [CHR ''a'', CHR 0x22]) =
      (\<lparr>root = Dir [(''db'', Dir [(''users'', Dir [])])], cwd = []\<rparr>,
       Some (JSONError ''unsupported value''))
   \<and> os_Stat \<lparr>root = Dir [(''db'', Dir [(''users'', Dir [])])], cwd = []\<rparr> ''/db/users'' =
      Inr (FileInfo ''users'' True)"
  by code_simp

text \<open>
  Claim C2, amended. For a non-empty collection and resource and a value that cannot be
  encoded, \<open>Write\<close> returns an error, and the filesystem it leaves is the one \<open>MkdirAll\<close>
  of the collection directory leaves: no file is created and no file is replaced, every
  path that holds a file holds the same content before and after, and no other path holds
  one.
\<close>

theorem Write_unserializable:
  assumes "collection \<noteq> []" and "resource \<noteq> []" and "marshal v = Inl err"
  shows "(\<exists>e. Write marshal d fs collection resource v =
           (snd (getOrCreateMutex d collection),
            fst (os_MkdirAll fs (filepath_Join [dir d, collection])), Some e))
    \<and> (\<forall>path b.
          ioutil_ReadFile (fst (snd (Write marshal d fs collection resource v))) path = Inr b
            \<longleftrightarrow> ioutil_ReadFile fs path = Inr b)"
proof -
  obtain m d1 where g: "getOrCreateMutex d collection = (m, d1)"
    by (cases "getOrCreateMutex d collection")
  then have "dir d1 = dir d"
    using getOrCreateMutex_dir [of d collection] by simp
  with assms g have w: "\<exists>e. Write marshal d fs collection resource v =
           (snd (getOrCreateMutex d collection),
            fst (os_MkdirAll fs (filepath_Join [dir d, collection])), Some e)"
    by (cases "os_MkdirAll fs (filepath_Join [dir d, collection])")
      (auto simp: Write_def Let_def split: option.splits)
  then have "\<forall>path b.
      ioutil_ReadFile (fst (snd (Write marshal d fs collection resource v))) path = Inr b
        \<longleftrightarrow> ioutil_ReadFile fs path = Inr b"
    by (auto simp: MkdirAll_files)
  with w show ?thesis
    by (rule conjI)
qed

theorem Write_unserializable_witness:
  "(\<exists>e. Write text_marshal store_driver store_fs ''users'' ''john'' [CHR ''a'', CHR 0x22] =
      (snd (getOrCreateMutex store_driver ''users''),
       fst (os_MkdirAll store_fs (filepath_Join [dir store_driver, ''users''])), Some e))
   \<and> (\<forall>path b.
        ioutil_ReadFile (fst (snd
          (Write text_marshal store_driver store_fs ''users'' ''john'' [CHR ''a'', CHR 0x22])))
          path = Inr b
        \<longleftrightarrow> ioutil_ReadFile store_fs path = Inr b)"
proof -
  have c: "''users'' \<noteq> []" and r: "''john'' \<noteq> []"
    by simp_all
  have m: "text_marshal [CHR ''a'', CHR 0x22] = Inl (JSONError ''unsupported value'')"
    by code_simp
  from c r m show ?thesis
    by (rule Write_unserializable)
qed

section \<open>Cleaning a clean path\<close>

lemma clean_elems_append:
  "clean_elems r out (xs @ ys) = clean_elems r (clean_elems r out xs) ys"
  by (induction xs arbitrary: out) auto

lemma split_path_trailing_slash: "split_path (p @ ''/'') = split_path p @ [[]]"
  using split_path_append [of p "[]"] by simp

lemma filepath_Clean_trailing_slash:
  "p \<noteq> [] \<Longrightarrow> filepath_Clean (p @ ''/'') = filepath_Clean p"
  by (simp add: filepath_Clean_def Let_def is_rooted_append split_path_trailing_slash
      clean_elems_append)

lemma filepath_Join_empty_resource:
  "filepath_Clean p = p \<Longrightarrow> filepath_Join [p, []] = p"
proof -
  assume c: "filepath_Clean p = p"
  then have ne: "p \<noteq> []"
    using filepath_Clean_not_Nil [of p] by auto
  then have "filepath_Join [p, []] = filepath_Clean (p @ ''/'')"
    by (cases p) (simp_all add: filepath_Join_def)
  with ne c show ?thesis
    by (simp add: filepath_Clean_trailing_slash)
qed

lemma endsWithDot_split:
  "endsWithDot p \<Longrightarrow> last (split_path p) = ''.''"
proof -
  assume e: "endsWithDot p"
  show ?thesis
  proof (cases "p = ''.''")
    case True
    then show ?thesis by simp
  next
    case False
    with e have l: "length p \<ge> 2" "last p = CHR ''.''" "last (butlast p) = CHR ''/''"
      by (auto simp: endsWithDot_def)
    obtain ys b where ys: "p = ys @ [b]"
      using l(1) by (cases p rule: rev_cases) auto
    with l(1) obtain xs a where xs: "ys = xs @ [a]"
      by (cases ys rule: rev_cases) auto
    from ys have "butlast p = ys" and "last p = b"
      by simp_all
    with ys xs l(2,3) have "p = xs @ CHR ''/'' # ''.''"
      by simp
    then have "split_path p = split_path xs @ split_path ''.''"
      using split_path_append [of xs "''.''"] by simp
    then show ?thesis by simp
  qed
qed

lemma endsWithDot_Clean: "endsWithDot (filepath_Clean p) \<longleftrightarrow> filepath_Clean p = ''.''"
proof
  assume "filepath_Clean p = ''.''"
  then show "endsWithDot (filepath_Clean p)" by (simp add: endsWithDot_def)
next
  assume e: "endsWithDot (filepath_Clean p)"
  let ?out = "clean_elems (is_rooted p) [] (split_path p)"
  have inv: "clean_inv (is_rooted p) ?out"
    by (rule clean_elems_inv) (auto simp: clean_inv_def dest: split_path_elems)
  have sp: "split_path (join_with ?out) = ?out" if "?out \<noteq> []"
    using that inv by (intro split_join_with) (auto simp: clean_inv_def)
  have nd: "last ?out \<noteq> ''.''" if "?out \<noteq> []"
    using that inv last_in_set [of ?out] unfolding clean_inv_def by blast
  show "filepath_Clean p = ''.''"
  proof (rule ccontr)
    assume n: "filepath_Clean p \<noteq> ''.''"
    then have pne: "p \<noteq> []"
      by (auto simp: filepath_Clean_def)
    from e have l: "last (split_path (filepath_Clean p)) = ''.''"
      by (rule endsWithDot_split)
    show False
    proof (cases "is_rooted p")
      case True
      with pne have c: "filepath_Clean p = CHR ''/'' # join_with ?out"
        by (simp add: filepath_Clean_def Let_def)
      show False
      proof (cases "?out = []")
        case True
        with c l show False by simp
      next
        case False
        with c l sp nd show False by (simp add: split_path_not_Nil)
      qed
    next
      case False
      with pne n have "?out \<noteq> []" and c: "filepath_Clean p = join_with ?out"
        by (auto simp: filepath_Clean_def Let_def split: if_splits)
      with l sp nd show False by simp
    qed
  qed
qed

lemma set_dropWhile_butlast: "set (dropWhile P (butlast xs)) \<subseteq> set (dropWhile P xs)"
proof (induction xs)
  case Nil
  show ?case by simp
next
  case (Cons x xs)
  show ?case
  proof (cases "xs = []")
    case True
    then show ?thesis by simp
  next
    case False
    then have b: "butlast (x # xs) = x # butlast xs"
      by simp
    have sub: "set (butlast xs) \<subseteq> set xs"
      using in_set_butlastD by fastforce
    show ?thesis
    proof (cases "P x")
      case True
      with Cons.IH show ?thesis
        unfolding b by simp
    next
      case False
      with sub show ?thesis
        unfolding b by (simp add: subset_insertI2)
    qed
  qed
qed

lemma ups_first_butlast:
  assumes "ups_first out"
  shows "ups_first (butlast out)"
proof -
  have "set (dropWhile (\<lambda>e. e = ''..'') (butlast out))
      \<subseteq> set (dropWhile (\<lambda>e. e = ''..'') out)"
    by (rule set_dropWhile_butlast)
  moreover from assms have "''..'' \<notin> set (dropWhile (\<lambda>e. e = ''..'') out)"
    unfolding ups_first_def .
  ultimately have "''..'' \<notin> set (dropWhile (\<lambda>e. e = ''..'') (butlast out))"
    by (rule contra_subsetD)
  then show ?thesis
    unfolding ups_first_def .
qed

lemma dropWhile_snoc:
  "dropWhile P (xs @ [e]) =
     (if \<forall>x\<in>set xs. P x then (if P e then [] else [e]) else dropWhile P xs @ [e])"
  by (simp add: dropWhile_append)

lemma not_in_dropWhile_snoc:
  "a \<notin> set (dropWhile P xs) \<Longrightarrow> a \<noteq> e \<Longrightarrow> a \<notin> set (dropWhile P (xs @ [e]))"
  by (simp add: dropWhile_snoc)

lemma ups_first_snoc_plain:
  assumes "ups_first out" and "e \<noteq> ''..''"
  shows "ups_first (out @ [e])"
proof -
  from assms(1) have a: "''..'' \<notin> set (dropWhile (\<lambda>e. e = ''..'') out)"
    unfolding ups_first_def .
  from assms(2) have b: "''..'' \<noteq> e"
    by (rule not_sym)
  from a b have "''..'' \<notin> set (dropWhile (\<lambda>e. e = ''..'') (out @ [e]))"
    by (rule not_in_dropWhile_snoc)
  then show ?thesis
    unfolding ups_first_def .
qed

lemma last_dropWhile: "dropWhile P xs \<noteq> [] \<Longrightarrow> last (dropWhile P xs) = last xs"
  by (induction xs) (auto split: if_splits)

lemma dropWhile_all:
  assumes "\<forall>x\<in>set (dropWhile P xs). \<not> P x" and "xs = [] \<or> P (last xs)"
  shows "\<forall>x\<in>set xs. P x"
proof -
  have "dropWhile P xs = []"
  proof (rule ccontr)
    assume n: "dropWhile P xs \<noteq> []"
    then have "last (dropWhile P xs) = last xs"
      by (rule last_dropWhile)
    moreover from n have "xs \<noteq> []" by auto
    ultimately have "P (last (dropWhile P xs))"
      using assms(2) by simp
    moreover from n have "last (dropWhile P xs) \<in> set (dropWhile P xs)"
      by (rule last_in_set)
    ultimately show False using assms(1) by blast
  qed
  then show ?thesis by (simp only: dropWhile_eq_Nil_conv)
qed

lemma ups_first_all_ups:
  assumes "ups_first out" and "out = [] \<or> last out = ''..''"
  shows "\<forall>e\<in>set out. e = ''..''"
proof (rule dropWhile_all)
  from assms(1) show "\<forall>x\<in>set (dropWhile (\<lambda>e. e = ''..'') out). \<not> x = ''..''"
    unfolding ups_first_def by blast
  from assms(2) show "out = [] \<or> last out = ''..''" .
qed

lemma ups_first_snoc_up:
  assumes "ups_first out" and "out = [] \<or> last out = ''..''"
  shows "ups_first (out @ [''..''])"
proof -
  from assms have all: "\<forall>e\<in>set out. e = ''..''"
    by (rule ups_first_all_ups)
  have "dropWhile (\<lambda>e. e = ''..'') (out @ [''..'']) = dropWhile (\<lambda>e. e = ''..'') [''..'']"
  proof (rule dropWhile_append2)
    fix x
    assume "x \<in> set out"
    with all show "x = ''..''"
      by (rule bspec)
  qed
  then have "dropWhile (\<lambda>e. e = ''..'') (out @ [''..'']) = []"
    by simp
  then show ?thesis
    unfolding ups_first_def by (simp only: set_simps empty_iff not_False_eq_True)
qed

lemma clean_elems_ups_first: "ups_first out \<Longrightarrow> ups_first (clean_elems r out es)"
proof (induction es arbitrary: out)
  case Nil
  then show ?case by simp
next
  case (Cons e es)
  consider (dot) "e = [] \<or> e = ''.''"
    | (up_pop) "e = ''..''" "out \<noteq> [] \<and> last out \<noteq> ''..''"
    | (up_root) "e = ''..''" "\<not> (out \<noteq> [] \<and> last out \<noteq> ''..'')" "r"
    | (up_keep) "e = ''..''" "\<not> (out \<noteq> [] \<and> last out \<noteq> ''..'')" "\<not> r"
    | (plain) "e \<noteq> []" "e \<noteq> ''.''" "e \<noteq> ''..''"
    by blast
  then show ?case
  proof cases
    case dot
    with Cons.IH [OF Cons.prems] show ?thesis by auto
  next
    case up_pop
    with Cons.IH [OF ups_first_butlast [OF Cons.prems]] show ?thesis by simp
  next
    case up_root
    with Cons.IH [OF Cons.prems] show ?thesis by auto
  next
    case up_keep
    then have "ups_first (out @ [''..''])"
      using Cons.prems by (intro ups_first_snoc_up) auto
    from Cons.IH [OF this] up_keep show ?thesis by auto
  next
    case plain
    then have "ups_first (out @ [e])"
      using Cons.prems by (intro ups_first_snoc_plain)
    from Cons.IH [OF this] plain show ?thesis by simp
  qed
qed

lemma clean_elems_fixed:
  "clean_inv r (out @ es) \<Longrightarrow> ups_first (out @ es) \<Longrightarrow> clean_elems r out es = out @ es"
proof (induction es arbitrary: out)
  case Nil
  then show ?case by simp
next
  case (Cons e es)
  from Cons.prems(1) have e: "e \<noteq> []" "e \<noteq> ''.''" "r \<longrightarrow> e \<noteq> ''..''"
    by (auto simp: clean_inv_def)
  from Cons.prems have ih: "clean_elems r (out @ [e]) es = (out @ [e]) @ es"
    by (intro Cons.IH) simp_all
  show ?case
  proof (cases "e = ''..''")
    case False
    with e ih show ?thesis by simp
  next
    case True
    have "\<forall>x\<in>set out. x = ''..''"
    proof (rule ccontr)
      assume "\<not> (\<forall>x\<in>set out. x = ''..'')"
      then have "dropWhile (\<lambda>e. e = ''..'') (out @ e # es) =
          dropWhile (\<lambda>e. e = ''..'') out @ e # es"
        by (auto simp: dropWhile_append)
      with True Cons.prems(2) show False by (simp add: ups_first_def)
    qed
    then have "out = [] \<or> last out = ''..''"
      using last_in_set [of out] by blast
    with True e ih show ?thesis by auto
  qed
qed

lemma filepath_Clean_idem: "filepath_Clean (filepath_Clean p) = filepath_Clean p"
proof (cases "p = []")
  case True
  have "filepath_Clean ''.'' = ''.''" by code_simp
  with True show ?thesis by (simp add: filepath_Clean_def)
next
  case pne: False
  let ?r = "is_rooted p"
  let ?out = "clean_elems ?r [] (split_path p)"
  let ?q = "filepath_Clean p"
  have inv: "clean_inv ?r ?out"
    by (rule clean_elems_inv) (auto simp: clean_inv_def dest: split_path_elems)
  have ups: "ups_first ?out"
    by (rule clean_elems_ups_first) (simp add: ups_first_def)
  have fixed: "clean_elems ?r [] ?out = ?out"
    using inv ups clean_elems_fixed [of ?r "[]" ?out] by simp
  have sp: "split_path (join_with ?out) = ?out" if "?out \<noteq> []"
    using that inv by (intro split_join_with) (auto simp: clean_inv_def)
  have rq: "is_rooted ?q = ?r"
    by (rule is_rooted_Clean)
  have qne: "?q \<noteq> []"
    by (rule filepath_Clean_not_Nil)
  show ?thesis
  proof (cases ?r)
    case True
    with pne have q: "?q = CHR ''/'' # join_with ?out"
      by (simp add: filepath_Clean_def Let_def)
    have "clean_elems True [] (split_path ?q) = ?out"
    proof (cases "?out = []")
      case True
      with q show ?thesis by simp
    next
      case False
      with q sp fixed True show ?thesis by simp
    qed
    with True rq qne have "filepath_Clean ?q = CHR ''/'' # join_with ?out"
      by (simp add: filepath_Clean_def [of ?q] Let_def)
    with q show ?thesis by simp
  next
    case nr: False
    show ?thesis
    proof (cases "?out = []")
      case True
      with nr pne have "?q = ''.''"
        by (simp add: filepath_Clean_def Let_def)
      moreover have "filepath_Clean ''.'' = ''.''" by code_simp
      ultimately show ?thesis by simp
    next
      case ne: False
      with nr pne have q: "?q = join_with ?out"
        by (simp add: filepath_Clean_def Let_def)
      with sp ne fixed nr have "clean_elems False [] (split_path ?q) = ?out"
        by simp
      with nr rq qne ne have "filepath_Clean ?q = join_with ?out"
        by (simp add: filepath_Clean_def [of ?q] Let_def)
      with q show ?thesis by simp
    qed
  qed
qed

lemma New_dir_clean: "New fs p = (d, fs', e) \<Longrightarrow> filepath_Clean (dir d) = dir d"
  by (auto simp: New_def Let_def filepath_Clean_idem split: sum.splits prod.splits)

section \<open>Delete with empty arguments\<close>

lemma remove_all_gone:
  "lookup t p = Inr n \<Longrightarrow> p \<noteq> [] \<Longrightarrow> lookup (remove_all t p) (p @ q) = Inl ENOENT"
proof (induction t p arbitrary: n rule: remove_all.induct)
  case (1 t)
  then show ?case by simp
next
  case (2 b x xs)
  then show ?case by simp
next
  case (3 es x)
  then show ?case by (simp add: delete_conv')
next
  case (4 es x y ys)
  then show ?case
    by (auto simp: update_conv' split: option.splits)
qed

lemma lookup_empty_dir_ENOENT: "q \<noteq> [] \<Longrightarrow> lookup (Dir []) q = Inl ENOENT"
  by (cases q) simp_all

lemma empty_at_lookup:
  "lookup t p = Inr (Dir es) \<Longrightarrow>
     lookup (empty_at t p) (p @ q) = (if q = [] then Inr (Dir []) else Inl ENOENT)"
proof (induction t p arbitrary: es rule: empty_at.induct)
  case (1 b p)
  then show ?case by (cases p) simp_all
next
  case (2 es')
  then show ?case by (simp add: lookup_empty_dir_ENOENT)
next
  case (3 es' x xs)
  then show ?case
    by (auto simp: update_conv' split: option.splits)
qed

lemma Stat_dir_lookup:
  "os_Stat fs p = Inr fi \<Longrightarrow> IsDir fi \<Longrightarrow>
     p \<noteq> [] \<and> (\<exists>es. lookup (root fs) (resolve fs p) = Inr (Dir es))"
  by (auto simp: os_Stat_def split: if_splits sum.splits node.splits) (metis is_dir.elims(2))

text \<open>
  The root of a store stays the cleaned path \<open>New\<close> stored, whatever calls follow.
\<close>

lemma run_call_dir: "run_call marshal (d, fs) call = (d', fs') \<Longrightarrow> dir d' = dir d"
proof (cases call)
  case (CallWrite c r v)
  assume "run_call marshal (d, fs) call = (d', fs')"
  with CallWrite have "d' = fst (Write marshal d fs c r v)"
    by (auto split: prod.splits)
  with Write_driver [of marshal d fs c r v] show ?thesis
    by (auto simp: getOrCreateMutex_dir)
next
  case (CallDelete c r)
  assume "run_call marshal (d, fs) call = (d', fs')"
  with CallDelete have "d' = fst (Delete d fs c r)"
    by (auto split: prod.splits)
  then show ?thesis
    by (simp add: Delete_driver getOrCreateMutex_dir)
qed auto

lemma run_calls_dir: "run_calls marshal (d, fs) calls = (d', fs') \<Longrightarrow> dir d' = dir d"
proof (induction calls arbitrary: d fs)
  case Nil
  then show ?case by (simp add: run_calls_def)
next
  case (Cons call calls)
  obtain d1 fs1 where s: "run_call marshal (d, fs) call = (d1, fs1)"
    by (cases "run_call marshal (d, fs) call")
  with Cons.prems have "run_calls marshal (d1, fs1) calls = (d', fs')"
    by (simp add: run_calls_def)
  then have "dir d' = dir d1" by (rule Cons.IH)
  with run_call_dir [OF s] show ?case by simp
qed

lemma store_root_clean:
  "New fs0 dir0 = (d, fs, e) \<Longrightarrow> run_calls marshal (d, fs) calls = (d', fs') \<Longrightarrow>
     dir d' = filepath_Clean dir0"
  by (auto simp: New_def Let_def split: sum.splits prod.splits dest: run_calls_dir)

text \<open>
  Claim C5 as stated fails for a store opened at \<open>./\<close>: its root is the path \<open>.\<close>,
  which \<open>os.RemoveAll\<close> refuses. \<open>Delete\<close> with an empty collection and an empty
  resource then returns that error and the filesystem is as before; the resource in
  \<open>users\<close> is still there.
\<close>

theorem Delete_empty_arguments_root_dot:
  "dir (fst (New local_fs ''./'')) = ''.''
   \<and> snd (New local_fs ''./'') = (local_fs, None)
   \<and> snd (Delete (fst (New local_fs ''./'')) local_fs [] []) =
        (local_fs, Some (PathError ''RemoveAll'' ''.'' EINVAL))
   \<and> ioutil_ReadFile local_fs ''users/john.json'' = Inr [CHR 0x22, CHR ''J'', CHR 0x22, CHR 0x0A]"
  by code_simp

text \<open>
  Claim C5, amended. \<open>Write\<close>, \<open>Read\<close> and \<open>ReadAll\<close> refuse an empty collection;
  \<open>Delete\<close> does not. Take a store whose root is a cleaned path (as \<open>New\<close> stores it)
  and is a directory, and call \<open>Delete\<close> with an empty collection and an empty resource.
  If the root is the path \<open>.\<close>, \<open>os.RemoveAll\<close> refuses it: \<open>Delete\<close> returns that
  error and the filesystem is as before. For every other root \<open>Delete\<close> is
  \<open>os.RemoveAll\<close> of the root, and afterwards no path below the root exists. The root
  itself is gone and no error is returned, unless the root path ends in \<open>..\<close> or names
  the root of the filesystem: then the emptied directory stays and \<open>Delete\<close> returns the
  error of removing it.
\<close>

theorem Delete_empty_arguments:
  assumes "os_Stat fs (dir d) = Inr fi" and "IsDir fi" and "dir d = filepath_Clean dir0"
  shows "Write marshal d fs [] resource v =
           (d, fs, Some (Errorf ''Missing collection - no place to save record!''))
    \<and> Read unmarshal d fs [] resource = Inl (Errorf ''Missing collection - unable to read!'')
    \<and> ReadAll d fs [] = Inl (Errorf ''Missing collection - unable to read'')
    \<and> (dir d = ''.'' \<longrightarrow>
          Delete d fs [] [] =
            (snd (getOrCreateMutex d []), fs, Some (PathError ''RemoveAll'' ''.'' EINVAL)))
    \<and> (dir d \<noteq> ''.'' \<longrightarrow>
          Delete d fs [] [] =
            (snd (getOrCreateMutex d []), fst (os_RemoveAll fs (dir d)),
             snd (os_RemoveAll fs (dir d)))
          \<and> (\<forall>q. q \<noteq> [] \<longrightarrow>
                lookup (root (fst (os_RemoveAll fs (dir d)))) (resolve fs (dir d) @ q) =
                  Inl ENOENT))
    \<and> (dir d \<noteq> ''.'' \<and> last_element (dir d) \<noteq> ''..'' \<and> resolve fs (dir d) \<noteq> [] \<longrightarrow>
          snd (os_RemoveAll fs (dir d)) = None
          \<and> lookup (root (fst (os_RemoveAll fs (dir d)))) (resolve fs (dir d)) = Inl ENOENT)
    \<and> (dir d \<noteq> ''.'' \<and> last_element (dir d) = ''..'' \<longrightarrow>
          (\<exists>op p. snd (os_RemoveAll fs (dir d)) = Some (PathError op p ENOTEMPTY))
          \<and> lookup (root (fst (os_RemoveAll fs (dir d)))) (resolve fs (dir d)) = Inr (Dir []))
    \<and> (dir d \<noteq> ''.'' \<and> last_element (dir d) \<noteq> ''..'' \<and> resolve fs (dir d) = [] \<longrightarrow>
          (\<exists>op p. snd (os_RemoveAll fs (dir d)) = Some (PathError op p EBUSY))
          \<and> lookup (root (fst (os_RemoveAll fs (dir d)))) (resolve fs (dir d)) = Inr (Dir []))"
proof -
  from assms(3) have cl: "filepath_Clean (dir d) = dir d"
    by (simp add: filepath_Clean_idem)
  from assms(1,2) obtain es where ne: "dir d \<noteq> []"
    and l: "lookup (root fs) (resolve fs (dir d)) = Inr (Dir es)"
    using Stat_dir_lookup by blast
  have "filepath_Join [[], []] = []"
    by (simp add: filepath_Join_def)
  then have j: "filepath_Join [dir d, filepath_Join [[], []]] = dir d"
    using filepath_Join_empty_resource [OF cl] by simp
  obtain m d1 where g: "getOrCreateMutex d [] = (m, d1)"
    by (cases "getOrCreateMutex d []")
  then have dd: "dir d1 = dir d"
    using getOrCreateMutex_dir [of d "[]"] by simp
  have st: "stat fs (dir d) = Inr fi"
    using assms(1) by (simp add: stat_def)
  have del: "Delete d fs [] [] =
      (snd (getOrCreateMutex d []), fst (os_RemoveAll fs (dir d)), snd (os_RemoveAll fs (dir d)))"
    using g dd j st assms(2) by (simp add: Delete_def Let_def split: prod.splits)
  have dot: "os_RemoveAll fs ''.'' = (fs, Some (PathError ''RemoveAll'' ''.'' EINVAL))"
    by (simp add: os_RemoveAll_def endsWithDot_def)
  have validate: "Write marshal d fs [] resource v =
           (d, fs, Some (Errorf ''Missing collection - no place to save record!''))
    \<and> Read unmarshal d fs [] resource = Inl (Errorf ''Missing collection - unable to read!'')
    \<and> ReadAll d fs [] = Inl (Errorf ''Missing collection - unable to read'')"
    by (simp add: Write_def Read_def ReadAll_def)
  have at_dot: "dir d = ''.'' \<longrightarrow>
      Delete d fs [] [] =
        (snd (getOrCreateMutex d []), fs, Some (PathError ''RemoveAll'' ''.'' EINVAL))"
    using del dot by simp
  {
    assume other: "dir d \<noteq> ''.''"
    then have nd: "\<not> endsWithDot (dir d)"
      using endsWithDot_Clean [of "dir d"] cl by simp
    have up: "os_RemoveAll fs (dir d) =
        (fs\<lparr>root := empty_at (root fs) (resolve fs (dir d))\<rparr>,
         Some (PathError ''unlinkat'' (dir d) ENOTEMPTY))"
      if "last_element (dir d) = ''..''"
      using that ne nd l by (simp add: os_RemoveAll_def)
    have top: "os_RemoveAll fs (dir d) =
        (fs\<lparr>root := empty_at (root fs) (resolve fs (dir d))\<rparr>,
         Some (PathError ''unlinkat'' (dir d) EBUSY))"
      if "last_element (dir d) \<noteq> ''..''" "resolve fs (dir d) = []"
      using that ne nd l by (simp add: os_RemoveAll_def)
    have plain: "os_RemoveAll fs (dir d) =
        (fs\<lparr>root := remove_all (root fs) (resolve fs (dir d))\<rparr>, None)"
      if "last_element (dir d) \<noteq> ''..''" "resolve fs (dir d) \<noteq> []"
      using that ne nd l by (simp add: os_RemoveAll_def)
    have emptied: "lookup (empty_at (root fs) (resolve fs (dir d))) (resolve fs (dir d) @ q) =
        (if q = [] then Inr (Dir []) else Inl ENOENT)" for q
      using l by (rule empty_at_lookup)
    have removed: "lookup (remove_all (root fs) (resolve fs (dir d))) (resolve fs (dir d) @ q) =
        Inl ENOENT" if "resolve fs (dir d) \<noteq> []" for q
      using l that by (rule remove_all_gone)
    have below: "lookup (root (fst (os_RemoveAll fs (dir d)))) (resolve fs (dir d) @ q) =
        Inl ENOENT" if "q \<noteq> []" for q
    proof (cases "last_element (dir d) = ''..''")
      case True
      with up emptied [of q] that show ?thesis by simp
    next
      case nu: False
      show ?thesis
      proof (cases "resolve fs (dir d) = []")
        case True
        with top [OF nu] emptied [of q] that show ?thesis by simp
      next
        case False
        with plain [OF nu] removed [of q] show ?thesis by simp
      qed
    qed
    have c_plain: "last_element (dir d) \<noteq> ''..'' \<and> resolve fs (dir d) \<noteq> [] \<longrightarrow>
          snd (os_RemoveAll fs (dir d)) = None
          \<and> lookup (root (fst (os_RemoveAll fs (dir d)))) (resolve fs (dir d)) = Inl ENOENT"
      using plain removed [of "[]"] by simp
    have c_up: "last_element (dir d) = ''..'' \<longrightarrow>
          (\<exists>op p. snd (os_RemoveAll fs (dir d)) = Some (PathError op p ENOTEMPTY))
          \<and> lookup (root (fst (os_RemoveAll fs (dir d)))) (resolve fs (dir d)) = Inr (Dir [])"
      using up emptied [of "[]"] by simp
    have c_top: "last_element (dir d) \<noteq> ''..'' \<and> resolve fs (dir d) = [] \<longrightarrow>
          (\<exists>op p. snd (os_RemoveAll fs (dir d)) = Some (PathError op p EBUSY))
          \<and> lookup (root (fst (os_RemoveAll fs (dir d)))) (resolve fs (dir d)) = Inr (Dir [])"
      using top emptied [of "[]"] by auto
    note below c_plain c_up c_top
  }
  with validate at_dot del show ?thesis
    by simp
qed

theorem Delete_empty_arguments_witness:
  "Write text_marshal store_driver users_fs [] ''john'' ''J'' =
           (store_driver, users_fs, Some (Errorf ''Missing collection - no place to save record!''))
    \<and> Read text_unmarshal store_driver users_fs [] ''john'' =
           Inl (Errorf ''Missing collection - unable to read!'')
    \<and> ReadAll store_driver users_fs [] = Inl (Errorf ''Missing collection - unable to read'')
    \<and> Delete store_driver users_fs [] [] =
          (snd (getOrCreateMutex store_driver []),
           fst (os_RemoveAll users_fs (dir store_driver)),
           snd (os_RemoveAll users_fs (dir store_driver)))
    \<and> lookup (root (fst (os_RemoveAll users_fs (dir store_driver))))
          (resolve users_fs (dir store_driver) @ [''users'', ''john.json'']) = Inl ENOENT
    \<and> snd (os_RemoveAll users_fs (dir store_driver)) = None
    \<and> lookup (root (fst (os_RemoveAll users_fs (dir store_driver))))
          (resolve users_fs (dir store_driver)) = Inl ENOENT
    \<and> Delete (fst (New local_fs ''./'')) local_fs [] [] =
          (snd (getOrCreateMutex (fst (New local_fs ''./'')) []), local_fs,
           Some (PathError ''RemoveAll'' ''.'' EINVAL))
    \<and> (\<exists>op p. snd (os_RemoveAll parent_fs (dir (fst (New parent_fs ''..'')))) =
          Some (PathError op p ENOTEMPTY))
    \<and> lookup (root (fst (os_RemoveAll parent_fs (dir (fst (New parent_fs ''..''))))))
          (resolve parent_fs (dir (fst (New parent_fs ''..'')))) = Inr (Dir [])"
proof -
  have st: "os_Stat users_fs (dir store_driver) = Inr (FileInfo ''db'' True)"
    by code_simp
  have isdir: "IsDir (FileInfo n True)" for n
    by simp
  have cl: "dir store_driver = filepath_Clean ''/db''"
    by code_simp
  have nd: "dir store_driver \<noteq> ''.''"
    by code_simp
  have nu: "last_element (dir store_driver) \<noteq> ''..''"
    by code_simp
  have below: "[''users'', ''john.json''] \<noteq> []"
    by simp
  have nr: "resolve users_fs (dir store_driver) \<noteq> []"
    by code_simp
  note inst = Delete_empty_arguments [OF st isdir cl, where marshal = text_marshal
      and unmarshal = text_unmarshal and resource = "''john''" and v = "''J''"]
  note rest = inst [THEN conjunct2, THEN conjunct2, THEN conjunct2, THEN conjunct2]
  from inst have a: "Write text_marshal store_driver users_fs [] ''john'' ''J'' =
           (store_driver, users_fs, Some (Errorf ''Missing collection - no place to save record!''))"
    by (rule conjunct1)
  from inst [THEN conjunct2]
  have b: "Read text_unmarshal store_driver users_fs [] ''john'' =
           Inl (Errorf ''Missing collection - unable to read!'')"
    by (rule conjunct1)
  from inst [THEN conjunct2, THEN conjunct2]
  have c: "ReadAll store_driver users_fs [] = Inl (Errorf ''Missing collection - unable to read'')"
    by (rule conjunct1)
  note other = rest [THEN conjunct1, THEN mp, OF nd]
  from other
  have d: "Delete store_driver users_fs [] [] =
          (snd (getOrCreateMutex store_driver []),
           fst (os_RemoveAll users_fs (dir store_driver)),
           snd (os_RemoveAll users_fs (dir store_driver)))"
    by (rule conjunct1)
  from other [THEN conjunct2, THEN spec, THEN mp, OF below]
  have e: "lookup (root (fst (os_RemoveAll users_fs (dir store_driver))))
          (resolve users_fs (dir store_driver) @ [''users'', ''john.json'']) = Inl ENOENT" .
  from rest [THEN conjunct2, THEN conjunct1, THEN mp, OF conjI [OF nd conjI [OF nu nr]]]
  have f: "snd (os_RemoveAll users_fs (dir store_driver)) = None
    \<and> lookup (root (fst (os_RemoveAll users_fs (dir store_driver))))
          (resolve users_fs (dir store_driver)) = Inl ENOENT" .
  have st1: "os_Stat local_fs (dir (fst (New local_fs ''./''))) = Inr (FileInfo ''.'' True)"
    by code_simp
  have cl1: "dir (fst (New local_fs ''./'')) = filepath_Clean ''./''"
    by code_simp
  have dot: "dir (fst (New local_fs ''./'')) = ''.''"
    by code_simp
  from Delete_empty_arguments [OF st1 isdir cl1, where marshal = text_marshal
      and unmarshal = text_unmarshal and resource = "''john''" and v = "''J''",
      THEN conjunct2, THEN conjunct2, THEN conjunct2, THEN conjunct1, THEN mp, OF dot]
  have g: "Delete (fst (New local_fs ''./'')) local_fs [] [] =
          (snd (getOrCreateMutex (fst (New local_fs ''./'')) []), local_fs,
           Some (PathError ''RemoveAll'' ''.'' EINVAL))" .
  have st2: "os_Stat parent_fs (dir (fst (New parent_fs ''..''))) = Inr (FileInfo ''..'' True)"
    by code_simp
  have cl2: "dir (fst (New parent_fs ''..'')) = filepath_Clean ''..''"
    by code_simp
  have nd2: "dir (fst (New parent_fs ''..'')) \<noteq> ''.''"
    by code_simp
  have up2: "last_element (dir (fst (New parent_fs ''..''))) = ''..''"
    by code_simp
  from Delete_empty_arguments [OF st2 isdir cl2, where marshal = text_marshal
      and unmarshal = text_unmarshal and resource = "''john''" and v = "''J''",
      THEN conjunct2, THEN conjunct2, THEN conjunct2, THEN conjunct2, THEN conjunct2,
      THEN conjunct2, THEN conjunct1, THEN mp, OF conjI [OF nd2 up2]]
  have h: "(\<exists>op p. snd (os_RemoveAll parent_fs (dir (fst (New parent_fs ''..'')))) =
          Some (PathError op p ENOTEMPTY))
    \<and> lookup (root (fst (os_RemoveAll parent_fs (dir (fst (New parent_fs ''..''))))))
          (resolve parent_fs (dir (fst (New parent_fs ''..'')))) = Inr (Dir [])" .
  from a b c d e f g h show ?thesis
    by (intro conjI) (simp_all only:)
qed

section \<open>Errors of the filesystem\<close>

lemma readAllLoop_error:
  "f \<in> set files \<Longrightarrow> ioutil_ReadFile fs (filepath_Join [dir', Name f]) = Inl e \<Longrightarrow>
     \<exists>e'. readAllLoop fs dir' files records = Inl e'"
proof (induction files arbitrary: records)
  case Nil
  then show ?case by simp
next
  case (Cons g files)
  show ?case
  proof (cases "ioutil_ReadFile fs (filepath_Join [dir', Name g])")
    case (Inl err)
    then show ?thesis by simp
  next
    case (Inr b)
    with Cons.prems have "f \<in> set files" by auto
    from Cons.IH [OF this Cons.prems(2)] Inr show ?thesis by simp
  qed
qed

text \<open>
  Claim C8 as stated fails: \<open>ReadAll\<close> discards the error of \<open>ioutil.ReadDir\<close>. In the
  store with the resource \<open>john\<close> in \<open>users\<close>, \<open>ReadAll\<close> of the collection
  \<open>users/john\<close> passes the existence probe through the file \<open>john.json\<close>; listing
  the directory \<open>/db/users/john\<close> fails, as it does not exist; and \<open>ReadAll\<close> returns
  the empty list and no error.
\<close>

theorem ReadAll_discards_listing_error:
  "stat users_fs (filepath_Join [dir store_driver, ''users/john'']) =
     Inr (FileInfo ''john.json'' False)
   \<and> ioutil_ReadDir users_fs (filepath_Join [dir store_driver, ''users/john'']) =
     Inl (PathError ''open'' ''/db/users/john'' ENOENT)
   \<and> ReadAll store_driver users_fs ''users/john'' = Inr []"
  by code_simp

text \<open>
  Claim C8, amended. An error of a filesystem call made by \<open>Write\<close> (\<open>MkdirAll\<close>,
  \<open>WriteFile\<close>, \<open>Rename\<close>), by \<open>Read\<close> (the existence probe, \<open>ReadFile\<close>), by
  \<open>ReadAll\<close> (the existence probe, \<open>ReadFile\<close> of a listed entry) or by \<open>Delete\<close>
  (\<open>RemoveAll\<close>) makes the operation return an error: the error of the call, or for a
  failed read in \<open>ReadAll\<close> the error of the first failed read. A failed existence
  probe in \<open>Delete\<close> makes it return its own not-found error. The one exception: when
  listing the directory fails in \<open>ReadAll\<close>, the error is discarded and \<open>ReadAll\<close>
  returns the empty list and no error.
\<close>

theorem filesystem_errors_returned:
   "(c \<noteq> [] \<and> r \<noteq> [] \<and> os_MkdirAll fs (filepath_Join [dir d, c]) = (fs1, Some e)
       \<longrightarrow> snd (snd (Write marshal d fs c r v)) = Some e)
  \<and> (c \<noteq> [] \<and> r \<noteq> [] \<and> os_MkdirAll fs (filepath_Join [dir d, c]) = (fs1, None) \<and> marshal v = Inr b
       \<and> ioutil_WriteFile fs1 (filepath_Join [filepath_Join [dir d, c], r @ ''.json''] @ ''.tmp'') (b @ [CHR 0x0A]) = (fs2, Some e)
       \<longrightarrow> snd (snd (Write marshal d fs c r v)) = Some e)
  \<and> (c \<noteq> [] \<and> r \<noteq> [] \<and> os_MkdirAll fs (filepath_Join [dir d, c]) = (fs1, None) \<and> marshal v = Inr b
       \<and> ioutil_WriteFile fs1 (filepath_Join [filepath_Join [dir d, c], r @ ''.json''] @ ''.tmp'') (b @ [CHR 0x0A]) = (fs2, None)
       \<and> os_Rename fs2 (filepath_Join [filepath_Join [dir d, c], r @ ''.json''] @ ''.tmp'') (filepath_Join [filepath_Join [dir d, c], r @ ''.json'']) = (fs3, Some e)
       \<longrightarrow> snd (snd (Write marshal d fs c r v)) = Some e)
  \<and> (c \<noteq> [] \<and> r \<noteq> [] \<and> stat fs (filepath_Join [dir d, c, r @ ''.json'']) = Inl e
       \<longrightarrow> Read unmarshal d fs c r = Inl e)
  \<and> (c \<noteq> [] \<and> r \<noteq> [] \<and> stat fs (filepath_Join [dir d, c, r @ ''.json'']) = Inr fi
       \<and> ioutil_ReadFile fs (filepath_Join [dir d, c, r @ ''.json'']) = Inl e
       \<longrightarrow> Read unmarshal d fs c r = Inl e)
  \<and> (c \<noteq> [] \<and> stat fs (filepath_Join [dir d, c]) = Inl e \<longrightarrow> ReadAll d fs c = Inl e)
  \<and> (c \<noteq> [] \<and> stat fs (filepath_Join [dir d, c]) = Inr fi \<and> ioutil_ReadDir fs (filepath_Join [dir d, c]) = Inr files
       \<and> f \<in> set files \<and> ioutil_ReadFile fs (filepath_Join [filepath_Join [dir d, c], Name f]) = Inl e
       \<longrightarrow> (\<exists>e'. ReadAll d fs c = Inl e'))
  \<and> (c \<noteq> [] \<and> stat fs (filepath_Join [dir d, c]) = Inr fi \<and> ioutil_ReadDir fs (filepath_Join [dir d, c]) = Inl e
       \<longrightarrow> ReadAll d fs c = Inr [])
  \<and> (stat fs (filepath_Join [dir d, filepath_Join [c, r]]) = Inl e
       \<longrightarrow> snd (snd (Delete d fs c r)) =
             Some (Errorf (''unable to find file or directory named ''
                             @ filepath_Join [c, r] @ [CHR 0x0A])))
  \<and> (stat fs (filepath_Join [dir d, filepath_Join [c, r]]) = Inr fi \<and> IsDir fi \<and> os_RemoveAll fs (filepath_Join [dir d, filepath_Join [c, r]]) = (fs1, Some e)
       \<longrightarrow> snd (snd (Delete d fs c r)) = Some e)
  \<and> (stat fs (filepath_Join [dir d, filepath_Join [c, r]]) = Inr fi \<and> \<not> IsDir fi
       \<and> os_RemoveAll fs (filepath_Join [dir d, filepath_Join [c, r]] @ ''.json'') = (fs1, Some e)
       \<longrightarrow> snd (snd (Delete d fs c r)) = Some e)"
proof -
  obtain m d1 where g: "getOrCreateMutex d c = (m, d1)"
    by (cases "getOrCreateMutex d c")
  then have dd: "dir d1 = dir d"
    using getOrCreateMutex_dir [of d c] by simp
  have w1: "c \<noteq> [] \<and> r \<noteq> [] \<and> os_MkdirAll fs (filepath_Join [dir d, c]) = (fs1, Some e)
       \<longrightarrow> snd (snd (Write marshal d fs c r v)) = Some e"
    using g dd by (simp add: Write_def Let_def)
  have w2: "c \<noteq> [] \<and> r \<noteq> [] \<and> os_MkdirAll fs (filepath_Join [dir d, c]) = (fs1, None) \<and> marshal v = Inr b
       \<and> ioutil_WriteFile fs1 (filepath_Join [filepath_Join [dir d, c], r @ ''.json''] @ ''.tmp'') (b @ [CHR 0x0A]) = (fs2, Some e)
       \<longrightarrow> snd (snd (Write marshal d fs c r v)) = Some e"
    using g dd by (simp add: Write_def Let_def)
  have w3: "c \<noteq> [] \<and> r \<noteq> [] \<and> os_MkdirAll fs (filepath_Join [dir d, c]) = (fs1, None) \<and> marshal v = Inr b
       \<and> ioutil_WriteFile fs1 (filepath_Join [filepath_Join [dir d, c], r @ ''.json''] @ ''.tmp'') (b @ [CHR 0x0A]) = (fs2, None)
       \<and> os_Rename fs2 (filepath_Join [filepath_Join [dir d, c], r @ ''.json''] @ ''.tmp'') (filepath_Join [filepath_Join [dir d, c], r @ ''.json'']) = (fs3, Some e)
       \<longrightarrow> snd (snd (Write marshal d fs c r v)) = Some e"
    using g dd by (simp add: Write_def Let_def)
  have r1: "c \<noteq> [] \<and> r \<noteq> [] \<and> stat fs (filepath_Join [dir d, c, r @ ''.json'']) = Inl e
       \<longrightarrow> Read unmarshal d fs c r = Inl e"
    by (simp add: Read_def Let_def)
  have r2: "c \<noteq> [] \<and> r \<noteq> [] \<and> stat fs (filepath_Join [dir d, c, r @ ''.json'']) = Inr fi
       \<and> ioutil_ReadFile fs (filepath_Join [dir d, c, r @ ''.json'']) = Inl e
       \<longrightarrow> Read unmarshal d fs c r = Inl e"
    by (simp add: Read_def Let_def)
  have a1: "c \<noteq> [] \<and> stat fs (filepath_Join [dir d, c]) = Inl e \<longrightarrow> ReadAll d fs c = Inl e"
    by (simp add: ReadAll_def Let_def)
  have a2: "c \<noteq> [] \<and> stat fs (filepath_Join [dir d, c]) = Inr fi \<and> ioutil_ReadDir fs (filepath_Join [dir d, c]) = Inr files
       \<and> f \<in> set files \<and> ioutil_ReadFile fs (filepath_Join [filepath_Join [dir d, c], Name f]) = Inl e
       \<longrightarrow> (\<exists>e'. ReadAll d fs c = Inl e')"
    using readAllLoop_error [of f files fs "filepath_Join [dir d, c]" e "[]"]
    by (simp add: ReadAll_def Let_def)
  have a3: "c \<noteq> [] \<and> stat fs (filepath_Join [dir d, c]) = Inr fi \<and> ioutil_ReadDir fs (filepath_Join [dir d, c]) = Inl e
       \<longrightarrow> ReadAll d fs c = Inr []"
    by (simp add: ReadAll_def Let_def)
  have d1: "stat fs (filepath_Join [dir d, filepath_Join [c, r]]) = Inl e
       \<longrightarrow> snd (snd (Delete d fs c r)) =
             Some (Errorf (''unable to find file or directory named ''
                             @ filepath_Join [c, r] @ [CHR 0x0A]))"
    using g dd by (simp add: Delete_def Let_def)
  have d2: "stat fs (filepath_Join [dir d, filepath_Join [c, r]]) = Inr fi \<and> IsDir fi \<and> os_RemoveAll fs (filepath_Join [dir d, filepath_Join [c, r]]) = (fs1, Some e)
       \<longrightarrow> snd (snd (Delete d fs c r)) = Some e"
    using g dd by (simp add: Delete_def Let_def)
  have d3: "stat fs (filepath_Join [dir d, filepath_Join [c, r]]) = Inr fi \<and> \<not> IsDir fi
       \<and> os_RemoveAll fs (filepath_Join [dir d, filepath_Join [c, r]] @ ''.json'') = (fs1, Some e)
       \<longrightarrow> snd (snd (Delete d fs c r)) = Some e"
    using g dd by (simp add: Delete_def Let_def IsRegular_def)
  from w1 w2 w3 r1 r2 a1 a2 a3 d1 d2 d3 show ?thesis
    by (intro conjI)
qed

theorem filesystem_errors_returned_witness:
  "Read text_unmarshal store_driver users_fs ''users'' ''ringo'' =
     Inl (PathError ''stat'' ''/db/users/ringo.json.json'' ENOENT)
   \<and> (\<exists>e'. ReadAll store_driver nested_fs ''users'' = Inl e')
   \<and> ReadAll store_driver users_fs ''users/john'' = Inr []
   \<and> snd (snd (Delete store_driver users_fs ''users'' ''ringo'')) =
       Some (Errorf (''unable to find file or directory named '' @ ''users/ringo'' @ [CHR 0x0A]))
   \<and> snd (snd (Write text_marshal store_driver users_fs ''users/john.json'' ''x'' ''J'')) =
       Some (PathError ''mkdir'' ''/db/users/john.json'' ENOTDIR)"
proof -
  note inst = filesystem_errors_returned [where marshal = text_marshal
      and unmarshal = text_unmarshal and d = store_driver and v = "''J''"]
  have ne: "''users'' \<noteq> []" "''ringo'' \<noteq> []" "''users/john'' \<noteq> []"
      "''users/john.json'' \<noteq> []" "''x'' \<noteq> []"
    by simp_all
  have s1: "stat users_fs (filepath_Join [dir store_driver, ''users'', ''ringo'' @ ''.json'']) =
      Inl (PathError ''stat'' ''/db/users/ringo.json.json'' ENOENT)"
    by code_simp
  have r: "Read text_unmarshal store_driver users_fs ''users'' ''ringo'' =
      Inl (PathError ''stat'' ''/db/users/ringo.json.json'' ENOENT)"
    using inst [where fs = users_fs and c = "''users''" and r = "''ringo''",
        THEN conjunct2, THEN conjunct2, THEN conjunct2, THEN conjunct1] ne s1
    by blast
  have s2: "stat nested_fs (filepath_Join [dir store_driver, ''users'']) =
      Inr (FileInfo ''users'' True)"
    by code_simp
  have l2: "ioutil_ReadDir nested_fs (filepath_Join [dir store_driver, ''users'']) =
      Inr [FileInfo ''john.json'' False, FileInfo ''old'' True, FileInfo ''paul.json'' False]"
    by code_simp
  have m2: "FileInfo ''old'' True \<in>
      set [FileInfo ''john.json'' False, FileInfo ''old'' True, FileInfo ''paul.json'' False]"
    by simp
  have f2: "ioutil_ReadFile nested_fs
      (filepath_Join [filepath_Join [dir store_driver, ''users''], Name (FileInfo ''old'' True)]) =
      Inl (PathError ''read'' ''/db/users/old'' EISDIR)"
    by code_simp
  have a2: "\<exists>e'. ReadAll store_driver nested_fs ''users'' = Inl e'"
    using inst [where fs = nested_fs and c = "''users''",
        THEN conjunct2, THEN conjunct2, THEN conjunct2, THEN conjunct2, THEN conjunct2,
        THEN conjunct2, THEN conjunct1] ne s2 l2 m2 f2
    by blast
  have s3: "stat users_fs (filepath_Join [dir store_driver, ''users/john'']) =
      Inr (FileInfo ''john.json'' False)"
    by code_simp
  have l3: "ioutil_ReadDir users_fs (filepath_Join [dir store_driver, ''users/john'']) =
      Inl (PathError ''open'' ''/db/users/john'' ENOENT)"
    by code_simp
  have a3: "ReadAll store_driver users_fs ''users/john'' = Inr []"
    using inst [where fs = users_fs and c = "''users/john''",
        THEN conjunct2, THEN conjunct2, THEN conjunct2, THEN conjunct2, THEN conjunct2,
        THEN conjunct2, THEN conjunct2, THEN conjunct1] ne s3 l3
    by blast
  have s4: "stat users_fs (filepath_Join [dir store_driver, filepath_Join [''users'', ''ringo'']]) =
      Inl (PathError ''stat'' ''/db/users/ringo.json'' ENOENT)"
    by code_simp
  have j4: "filepath_Join [''users'', ''ringo''] = ''users/ringo''"
    by code_simp
  have d1: "snd (snd (Delete store_driver users_fs ''users'' ''ringo'')) =
       Some (Errorf (''unable to find file or directory named '' @ ''users/ringo'' @ [CHR 0x0A]))"
    using inst [where fs = users_fs and c = "''users''" and r = "''ringo''",
        THEN conjunct2, THEN conjunct2, THEN conjunct2, THEN conjunct2, THEN conjunct2,
        THEN conjunct2, THEN conjunct2, THEN conjunct2, THEN conjunct1] s4
    unfolding j4 by blast
  have m5: "os_MkdirAll users_fs (filepath_Join [dir store_driver, ''users/john.json'']) =
      (users_fs, Some (PathError ''mkdir'' ''/db/users/john.json'' ENOTDIR))"
    by code_simp
  have w1: "snd (snd (Write text_marshal store_driver users_fs ''users/john.json'' ''x'' ''J'')) =
       Some (PathError ''mkdir'' ''/db/users/john.json'' ENOTDIR)"
    using inst [where fs = users_fs and c = "''users/john.json''" and r = "''x''",
        THEN conjunct1] ne m5
    by blast
  from r a2 a3 d1 w1 show ?thesis
    by (intro conjI)
qed

end
